theory Spec2Isabelle
  imports Complex_Main "HOL-Library.Sublist"
begin

section \<open>Python values and exceptions\<close>

text \<open>
  The exceptions the modelled code can raise. Python ints are \<open>int\<close>; a \<open>str\<close> is a
  \<open>string\<close> whose characters stand for the code points below 256. A Python float is
  represented by the real number it denotes, and the two float computations of \<open>run\<close>
  (the producer interval and \<open>pregenerate\<close>) are carried out on reals. This is an
  idealisation: the machine rounds every quotient to a double, so the computed interval
  and the pre-generation flag can differ from the program's at a rounding boundary
  (\<open>pregenerate(1, 0.3333333333333333, 3, 1.0)\<close> is \<open>False\<close> on doubles, where the exact
  quotient is larger than the interval), and infinities, NaN and the \<open>OverflowError\<close> of
  an integer beyond the range of a double have no counterpart here. None of the claims
  settled below depends on the value of the interval or of the flag; of the float
  computations they use only the division by zero, which is exact.
\<close>

datatype py_error =
    ValueError string
  | ZeroDivisionError
  | AssertionError
  | KeyboardInterrupt
  | IndexError
  | StoreExistsError
  | LibraryError string

text \<open>Python's true division \<open>a / b\<close> on floats: raises on a zero divisor.\<close>

definition py_truediv :: "real \<Rightarrow> real \<Rightarrow> py_error + real" where
  "py_truediv a b = (if b = 0 then Inl ZeroDivisionError else Inr (a / b))"

section \<open>The stream-scaling benchmark (\<open>psbench/benchmarks/stream_scaling/main.py\<close>)\<close>

subsection \<open>\<open>pregenerate\<close>\<close>

text \<open>
  \<open>example_rate = example_size / example_time; expected_time = size / example_rate;
  return expected_time > interval\<close>, on reals. Both divisions raise on a zero divisor.
\<close>

definition pregenerate :: "int \<Rightarrow> real \<Rightarrow> int \<Rightarrow> real \<Rightarrow> py_error + bool" where
  "pregenerate sz interval example_size example_time =
     (case py_truediv (real_of_int example_size) example_time of
        Inl e \<Rightarrow> Inl e
      | Inr example_rate \<Rightarrow>
          (case py_truediv (real_of_int sz) example_rate of
             Inl e \<Rightarrow> Inl e
           | Inr expected_time \<Rightarrow> Inr (expected_time > interval)))"

text \<open>The default arguments \<open>example_size = 100_000_000\<close> and \<open>example_time = 0.250\<close>.\<close>

definition default_example_size :: int where
  "default_example_size = 100000000"

definition default_example_time :: real where
  "default_example_time = 250 / 1000"

subsection \<open>Data\<close>

text \<open>
  An item delivered by the stream consumer: a payload, or a proxy of one together with
  its cached target (\<open>__wrapped__\<close>), which \<open>run\<close> resets before submitting.
\<close>

datatype item = Bytes string | Proxy "string option"

fun unwrap :: "item \<Rightarrow> item" where
  "unwrap (Proxy w) = Proxy None"
| "unwrap (Bytes d) = Bytes d"

record RunConfig =
  data_size_bytes :: int
  task_count :: int
  task_sleep :: real

record RunResult =
  res_executor :: string
  res_connector :: string
  res_stream :: string
  res_data_size_bytes :: int
  res_task_count :: int
  res_task_sleep :: real
  res_workers :: int
  res_completed_tasks :: nat
  res_start_submit_tasks_timestamp :: real
  res_end_tasks_done_timestamp :: real

record Executor =
  class_name :: string
  executor_max_workers :: "int option"

record Benchmark =
  executor :: Executor
  connector_name :: string
  stream_kind :: "string option"
  max_workers :: int

text \<open>\<open>Benchmark.__init__\<close>: an executor without \<open>max_workers\<close> is refused.\<close>

definition Benchmark_init :: "Executor \<Rightarrow> string \<Rightarrow> string option \<Rightarrow> py_error + Benchmark" where
  "Benchmark_init ex conn kind =
     (case executor_max_workers ex of
        None \<Rightarrow> Inl (ValueError
          ''Executor max_workers is None but this benchmark requires the executor to define the maximum number of workers.'')
      | Some n \<Rightarrow> Inr \<lparr>executor = ex, connector_name = conn, stream_kind = kind, max_workers = n\<rparr>)"

subsection \<open>The state of one \<open>run\<close>\<close>

text \<open>
  Calls \<open>run\<close> makes on the executor, the futures and the store, in the order made.
  A compute future is named by the index \<open>i\<close> of \<open>enumerate\<close> at its submission.
  \<open>SubmitGenerator item_size_bytes max_items pregenerate interval\<close> is the submission of
  the generator task with the arguments \<open>run\<close> computes.
\<close>

datatype call =
    SubmitGenerator int int bool real
  | SubmitCompute nat item real
  | ResultCompute nat
  | SetResult bool
  | ResultGenerator

text \<open>
  \<open>running_tasks\<close> is the deque (its head is the left end), \<open>completed_tasks\<close> the counter,
  \<open>stop_generator\<close> the value of the stop future (\<open>None\<close> while unset). \<open>calls\<close> and
  \<open>deque_history\<close> are observation only: the calls made so far, and every value the
  deque has taken, from its creation on.
\<close>

record run_state =
  running_tasks :: "nat list"
  completed_tasks :: nat
  stop_generator :: "bool option"
  calls :: "call list"
  deque_history :: "nat list list"

definition init_state :: run_state where
  "init_state = \<lparr>running_tasks = [], completed_tasks = 0, stop_generator = None,
                  calls = [], deque_history = []\<rparr>"

definition do_call :: "call \<Rightarrow> run_state \<Rightarrow> run_state" where
  "do_call c s = s\<lparr>calls := calls s @ [c]\<rparr>"

definition new_deque :: "run_state \<Rightarrow> run_state" where
  "new_deque s = s\<lparr>running_tasks := [], deque_history := deque_history s @ [[]]\<rparr>"

definition append_task :: "nat \<Rightarrow> run_state \<Rightarrow> run_state" where
  "append_task f s = s\<lparr>running_tasks := running_tasks s @ [f],
                        deque_history := deque_history s @ [running_tasks s @ [f]]\<rparr>"

text \<open>\<open>deque.popleft()\<close> raises \<open>IndexError\<close> on an empty deque.\<close>

definition popleft :: "run_state \<Rightarrow> py_error + (nat \<times> run_state)" where
  "popleft s =
     (case running_tasks s of
        [] \<Rightarrow> Inl IndexError
      | f # rest \<Rightarrow> Inr (f, s\<lparr>running_tasks := rest,
                               deque_history := deque_history s @ [rest]\<rparr>))"

definition set_result :: "bool \<Rightarrow> run_state \<Rightarrow> run_state" where
  "set_result v s = do_call (SetResult v) (s\<lparr>stop_generator := Some v\<rparr>)"

definition incr_completed :: "run_state \<Rightarrow> run_state" where
  "incr_completed s = s\<lparr>completed_tasks := completed_tasks s + 1\<rparr>"

subsection \<open>The environment of one \<open>run\<close>\<close>

text \<open>
  A \<open>KeyboardInterrupt\<close> may arrive between any two statements of the loop. The point
  names the last thing that happened in the iteration it arrives in:
  \<open>BeforeSubmit\<close> while the next item is awaited (or before \<open>submit\<close> takes effect),
  \<open>AfterSubmit\<close> once the task is submitted but its future not yet appended,
  \<open>AfterAppend\<close> once it is appended, \<open>AfterPopleft\<close> once the oldest future is popped but
  \<open>result()\<close> not yet called, \<open>InResult\<close> inside \<open>result()\<close> or before the counter is
  incremented. A point the iteration does not pass (the two last ones, when nothing is
  popped) means the end of that iteration.
\<close>

datatype ipoint = BeforeSubmit | AfterSubmit | AfterAppend | AfterPopleft | InResult

text \<open>
  What \<open>run\<close> reads from outside: the items the consumer yields until the stream is
  closed, the iteration and point of the one interrupt (if any), and the two readings of
  \<open>time.time()\<close>. Futures are taken to complete without raising.
\<close>

record env =
  stream :: "item list"
  interrupt :: "(nat \<times> ipoint) option"
  clock_start :: real
  clock_end :: real

definition point_at :: "(nat \<times> ipoint) option \<Rightarrow> nat \<Rightarrow> ipoint option" where
  "point_at intr i =
     (case intr of None \<Rightarrow> None | Some (k, p) \<Rightarrow> if k = i then Some p else None)"

subsection \<open>The consume/submit loop\<close>

text \<open>One iteration of \<open>for i, item in enumerate(self.consumer)\<close>.\<close>

definition loop_body ::
  "int \<Rightarrow> real \<Rightarrow> ipoint option \<Rightarrow> nat \<Rightarrow> item \<Rightarrow> run_state \<Rightarrow> py_error option \<times> run_state" where
  "loop_body compute_workers sleep intr i it s =
     (if intr = Some BeforeSubmit then (Some KeyboardInterrupt, s)
      else
        let s1 = do_call (SubmitCompute i (unwrap it) sleep) s in
        if intr = Some AfterSubmit then (Some KeyboardInterrupt, s1)
        else
          let s2 = append_task i s1 in
          if intr = Some AfterAppend then (Some KeyboardInterrupt, s2)
          else if int (length (running_tasks s2)) \<ge> compute_workers then
            (case popleft s2 of
               Inl e \<Rightarrow> (Some e, s2)
             | Inr (oldest, s3) \<Rightarrow>
                 if intr = Some AfterPopleft then (Some KeyboardInterrupt, s3)
                 else
                   let s4 = do_call (ResultCompute oldest) s3 in
                   if intr = Some InResult then (Some KeyboardInterrupt, s4)
                   else (None, incr_completed s4))
          else (if intr = None then None else Some KeyboardInterrupt, s2))"

text \<open>
  The loop over the stream. When the stream is exhausted the loop ends, unless the
  interrupt arrives while the consumer waits for the end of the stream.
\<close>

fun consume ::
  "int \<Rightarrow> real \<Rightarrow> (nat \<times> ipoint) option \<Rightarrow> nat \<Rightarrow> item list \<Rightarrow> run_state
     \<Rightarrow> py_error option \<times> run_state" where
  "consume cw sleep intr i [] s =
     (if intr = Some (i, BeforeSubmit) then Some KeyboardInterrupt else None, s)"
| "consume cw sleep intr i (it # rest) s =
     (case loop_body cw sleep (point_at intr i) i it s of
        (Some e, s') \<Rightarrow> (Some e, s')
      | (None, s') \<Rightarrow> consume cw sleep intr (Suc i) rest s')"

subsection \<open>The final drain\<close>

text \<open>\<open>while len(running_tasks) > 0: task = popleft(); task.result(); completed_tasks += 1\<close>\<close>

function drain :: "run_state \<Rightarrow> py_error option \<times> run_state" where
  "drain s =
     (if length (running_tasks s) > 0 then
        (case popleft s of
           Inl e \<Rightarrow> (Some e, s)
         | Inr (task, s1) \<Rightarrow> drain (incr_completed (do_call (ResultCompute task) s1)))
      else (None, s))"
  by pat_completeness auto
termination
  by (relation "measure (\<lambda>s. length (running_tasks s))")
     (auto simp: popleft_def incr_completed_def do_call_def split: list.splits)

declare drain.simps [simp del]

subsection \<open>\<open>Benchmark.run\<close>\<close>

text \<open>What follows the \<open>try\<close> statement: the generator is awaited again, the deque is
  drained, the stream kind is asserted and the result is built.\<close>

definition finish :: "Benchmark \<Rightarrow> RunConfig \<Rightarrow> env \<Rightarrow> run_state \<Rightarrow> (py_error + RunResult) \<times> run_state" where
  "finish b config e s =
     (let s5 = do_call ResultGenerator s in
      case drain s5 of
        (Some err, s6) \<Rightarrow> (Inl err, s6)
      | (None, s6) \<Rightarrow>
          (case stream_kind b of
             None \<Rightarrow> (Inl AssertionError, s6)
           | Some kind \<Rightarrow>
               (Inr \<lparr>res_executor = class_name (executor b),
                     res_connector = connector_name b,
                     res_stream = kind,
                     res_data_size_bytes = data_size_bytes config,
                     res_task_count = task_count config,
                     res_task_sleep = task_sleep config,
                     res_workers = max_workers b,
                     res_completed_tasks = completed_tasks s6,
                     res_start_submit_tasks_timestamp = clock_start e,
                     res_end_tasks_done_timestamp = clock_end e\<rparr>, s6)))"

text \<open>
  The statements before the \<open>try\<close>: the producer interval, the pre-generation flag, the
  submission of the generator task and the empty deque. Nothing has been called when
  the division raises.
\<close>

definition prologue :: "Benchmark \<Rightarrow> RunConfig \<Rightarrow> py_error + run_state" where
  "prologue b config =
     (let compute_workers = max_workers b - 1 in
      case py_truediv (task_sleep config) (real_of_int compute_workers) of
        Inl err \<Rightarrow> Inl err
      | Inr producer_interval \<Rightarrow>
          (case pregenerate (data_size_bytes config) producer_interval
                  default_example_size default_example_time of
             Inl err \<Rightarrow> Inl err
           | Inr pregen_data \<Rightarrow>
               Inr (new_deque
                     (do_call (SubmitGenerator (data_size_bytes config) (task_count config)
                                 pregen_data producer_interval) init_state))))"

text \<open>The body of the \<open>try\<close>: the loop, entered with \<open>compute_workers = max_workers - 1\<close>.\<close>

definition consume_loop :: "Benchmark \<Rightarrow> RunConfig \<Rightarrow> env \<Rightarrow> run_state \<Rightarrow> py_error option \<times> run_state" where
  "consume_loop b config e s =
     consume (max_workers b - 1) (task_sleep config) (interrupt e) 0 (stream e) s"

text \<open>
  \<open>run\<close> returns what the method returns or raises, together with the final state.
  The \<open>try\<close> statement: a \<open>KeyboardInterrupt\<close> of the loop is handled by setting the stop
  future; the \<open>finally\<close> clause awaits the generator in every case; any other exception
  leaves \<open>run\<close> after the \<open>finally\<close> clause.
\<close>

definition run :: "Benchmark \<Rightarrow> RunConfig \<Rightarrow> env \<Rightarrow> (py_error + RunResult) \<times> run_state" where
  "run b config e =
     (case prologue b config of
        Inl err \<Rightarrow> (Inl err, init_state)
      | Inr s1 \<Rightarrow>
          (case consume_loop b config e s1 of
             (Some KeyboardInterrupt, s2) \<Rightarrow>
                finish b config e (do_call ResultGenerator (set_result True s2))
           | (Some err, s2) \<Rightarrow> (Inl err, do_call ResultGenerator s2)
           | (None, s2) \<Rightarrow> finish b config e (do_call ResultGenerator s2)))"

subsection \<open>Observations\<close>

text \<open>The compute futures whose \<open>result()\<close> was called, and those submitted, in call order.\<close>

fun awaited_of :: "call list \<Rightarrow> nat list" where
  "awaited_of [] = []"
| "awaited_of (ResultCompute i # cs) = i # awaited_of cs"
| "awaited_of (c # cs) = awaited_of cs"

fun submitted_of :: "call list \<Rightarrow> nat list" where
  "submitted_of [] = []"
| "submitted_of (SubmitCompute i it sl # cs) = i # submitted_of cs"
| "submitted_of (c # cs) = submitted_of cs"

text \<open>The interrupt of the environment arrives while the loop runs.\<close>

definition interrupt_in_loop :: "env \<Rightarrow> bool" where
  "interrupt_in_loop e =
     (case interrupt e of
        None \<Rightarrow> False
      | Some (k, p) \<Rightarrow> k < length (stream e) \<or> (k = length (stream e) \<and> p = BeforeSubmit))"

subsection \<open>Sample inputs\<close>

text \<open>A benchmark over an executor with \<open>n\<close> workers, a configuration and an environment
  delivering four items, used to evaluate the model on concrete runs.\<close>

definition sample_benchmark :: "int \<Rightarrow> string option \<Rightarrow> Benchmark" where
  "sample_benchmark n kind =
     \<lparr>executor = \<lparr>class_name = ''ThreadPoolExecutor'', executor_max_workers = Some n\<rparr>,
      connector_name = ''FileConnector'', stream_kind = kind, max_workers = n\<rparr>"

definition sample_config :: RunConfig where
  "sample_config = \<lparr>data_size_bytes = 1000, task_count = 4, task_sleep = 1\<rparr>"

definition sample_env :: "(nat \<times> ipoint) option \<Rightarrow> env" where
  "sample_env intr =
     \<lparr>stream = [Bytes ''a'', Proxy (Some ''b''), Bytes ''c'', Bytes ''d''],
      interrupt = intr, clock_start = 0, clock_end = 5\<rparr>"

section \<open>Store selection (\<open>psbench/proxystore.py\<close>)\<close>

text \<open>
  The attributes of the argument namespace that \<open>init_store_from_args\<close> reads. An
  attribute the parser leaves unset is \<open>None\<close>.
\<close>

record Namespace =
  ps_backend :: "string option"
  ps_endpoints :: "string list option"
  ps_file_dir :: "string option"
  ps_globus_config :: "string option"
  ps_host :: "string option"
  ps_port :: "int option"
  ps_margo_protocol :: "string option"
  ps_address :: "string option"
  ps_interface :: "string option"

text \<open>
  The connectors of the store library, each holding the arguments its constructor is
  called with. The arguments of \<open>MargoConnector\<close> are \<open>port\<close>, \<open>protocol\<close>, \<open>address\<close>,
  \<open>interface\<close>; those of \<open>UCXConnector\<close> and \<open>ZeroMQConnector\<close> are \<open>port\<close>, \<open>interface\<close>,
  \<open>address\<close>, in the order the source writes the keywords. \<open>GlobusEndpoints\<close> is what
  \<open>GlobusEndpoints.from_json\<close> reads from a configuration file, here the endpoints listed.
\<close>

datatype GlobusEndpoints = GlobusEndpoints "string list"

datatype Connector =
    EndpointConnector "string list option"
  | FileConnector "string option"
  | GlobusConnector GlobusEndpoints
  | RedisConnector "string option" "int option"
  | MargoConnector "int option" "string option" "string option" "string option"
  | UCXConnector "int option" "string option" "string option"
  | ZeroMQConnector "int option" "string option" "string option"

text \<open>The class of a connector.\<close>

fun connector_class :: "Connector \<Rightarrow> string" where
  "connector_class (EndpointConnector _) = ''EndpointConnector''"
| "connector_class (FileConnector _) = ''FileConnector''"
| "connector_class (GlobusConnector _) = ''GlobusConnector''"
| "connector_class (RedisConnector _ _) = ''RedisConnector''"
| "connector_class (MargoConnector _ _ _ _) = ''MargoConnector''"
| "connector_class (UCXConnector _ _ _) = ''UCXConnector''"
| "connector_class (ZeroMQConnector _ _ _) = ''ZeroMQConnector''"

text \<open>A \<open>Store(name, connector, **kwargs)\<close>, with the keyword arguments as passed.\<close>

record Store =
  store_name :: string
  connector :: Connector
  store_kwargs :: "(string \<times> string) list"

text \<open>
  What the store library and the machine decide, and \<open>init_store_from_args\<close> does not:
  \<open>globus_files\<close> gives, for each path that can be opened, what parsing it as Globus
  endpoints yields (the endpoints, or the exception of the parser); \<open>connector_error\<close> and
  \<open>store_error\<close> give the exception that constructing this connector or this store raises
  (a directory that cannot be made, a server that cannot be reached, a keyword the
  constructor does not take), \<open>None\<close> when the constructor succeeds. An exception of the
  library is a \<open>LibraryError\<close> with the name of its class.
\<close>

record library =
  globus_files :: "string \<rightharpoonup> py_error + GlobusEndpoints"
  connector_error :: "Connector \<Rightarrow> py_error option"
  store_error :: "Store \<Rightarrow> py_error option"

text \<open>
  \<open>GlobusEndpoints.from_json(path)\<close> opens the file: it raises when there is no path
  (\<open>None\<close>) or no such file, and otherwise returns what the parser yields.
\<close>

definition GlobusEndpoints_from_json :: "library \<Rightarrow> string option \<Rightarrow> py_error + GlobusEndpoints" where
  "GlobusEndpoints_from_json lib json_file =
     (case json_file of
        None \<Rightarrow> Inl (LibraryError ''TypeError'')
      | Some path \<Rightarrow>
          (case globus_files lib path of
             None \<Rightarrow> Inl (LibraryError ''FileNotFoundError'')
           | Some parsed \<Rightarrow> parsed))"

text \<open>A call of a connector's constructor, and of \<open>Store(name, connector, **kwargs)\<close>.\<close>

definition construct :: "library \<Rightarrow> Connector \<Rightarrow> py_error + Connector" where
  "construct lib conn = (case connector_error lib conn of Some err \<Rightarrow> Inl err | None \<Rightarrow> Inr conn)"

definition new_store ::
  "library \<Rightarrow> string \<Rightarrow> Connector \<Rightarrow> (string \<times> string) list \<Rightarrow> py_error + Store" where
  "new_store lib name conn kwargs =
     (let store = \<lparr>store_name = name, connector = conn, store_kwargs = kwargs\<rparr>
      in case store_error lib store of Some err \<Rightarrow> Inl err | None \<Rightarrow> Inr store)"

text \<open>
  \<open>register_store(store)\<close> adds the store to the registry of the library, here the list of
  the stores registered so far, and raises \<open>StoreExistsError\<close> when a store of that name is
  registered already.
\<close>

definition register_store :: "Store \<Rightarrow> Store list \<Rightarrow> py_error + Store list" where
  "register_store store registry =
     (if store_name store \<in> set (map store_name registry) then Inl StoreExistsError
      else Inr (registry @ [store]))"

text \<open>Python's truth value of \<open>args.ps_backend\<close>: \<open>None\<close> and the empty string are false.\<close>

definition falsy :: "string option \<Rightarrow> bool" where
  "falsy v = (case v of None \<Rightarrow> True | Some s \<Rightarrow> s = [])"

text \<open>The \<open>if\<close>/\<open>elif\<close> chain that selects and constructs the connector.\<close>

definition select_connector :: "library \<Rightarrow> string \<Rightarrow> Namespace \<Rightarrow> py_error + Connector" where
  "select_connector lib backend args =
     (if backend = ''ENDPOINT'' then construct lib (EndpointConnector (ps_endpoints args))
      else if backend = ''FILE'' then construct lib (FileConnector (ps_file_dir args))
      else if backend = ''GLOBUS'' then
        (case GlobusEndpoints_from_json lib (ps_globus_config args) of
           Inl err \<Rightarrow> Inl err
         | Inr endpoints \<Rightarrow> construct lib (GlobusConnector endpoints))
      else if backend = ''REDIS'' then
        construct lib (RedisConnector (ps_host args) (ps_port args))
      else if backend = ''MARGO'' then
        construct lib (MargoConnector (ps_port args) (ps_margo_protocol args) (ps_address args)
                         (ps_interface args))
      else if backend = ''UCX'' then
        construct lib (UCXConnector (ps_port args) (ps_interface args) (ps_address args))
      else if backend = ''ZMQ'' then
        construct lib (ZeroMQConnector (ps_port args) (ps_interface args) (ps_address args))
      else Inl (ValueError (''Invalid backend: '' @ backend)))"

text \<open>
  \<open>init_store_from_args(args, **kwargs)\<close>: what it returns, with the registry afterwards,
  or the exception that leaves it. Nothing catches the exceptions of the library.
\<close>

definition init_store_from_args ::
  "library \<Rightarrow> Namespace \<Rightarrow> (string \<times> string) list \<Rightarrow> Store list
     \<Rightarrow> py_error + (Store option \<times> Store list)" where
  "init_store_from_args lib args kwargs registry =
     (if falsy (ps_backend args) then Inr (None, registry)
      else
        (case ps_backend args of
           None \<Rightarrow> Inr (None, registry)
         | Some backend \<Rightarrow>
             (case select_connector lib backend args of
                Inl err \<Rightarrow> Inl err
              | Inr conn \<Rightarrow>
                  (case new_store lib (backend @ ''-STORE'') conn kwargs of
                     Inl err \<Rightarrow> Inl err
                   | Inr store \<Rightarrow>
                       (case register_store store registry of
                          Inl err \<Rightarrow> Inl err
                        | Inr registry' \<Rightarrow> Inr (Some store, registry'))))))"

text \<open>The backend strings the chain recognizes; a library in which every constructor
  succeeds and one configuration file exists; and a namespace to evaluate the chain on.\<close>

definition recognized_backends :: "string list" where
  "recognized_backends = [''ENDPOINT'', ''FILE'', ''GLOBUS'', ''REDIS'', ''MARGO'', ''UCX'', ''ZMQ'']"

definition sample_library :: library where
  "sample_library =
     \<lparr>globus_files = [''globus.json'' \<mapsto> Inr (GlobusEndpoints [''a2f1'', ''c93e''])],
      connector_error = (\<lambda>conn. None), store_error = (\<lambda>store. None)\<rparr>"

definition sample_args :: "string option \<Rightarrow> Namespace" where
  "sample_args backend =
     \<lparr>ps_backend = backend, ps_endpoints = Some [''5349ffce''], ps_file_dir = Some ''/tmp/ps'',
      ps_globus_config = Some ''globus.json'', ps_host = Some ''localhost'',
      ps_port = Some 6379, ps_margo_protocol = Some ''tcp'', ps_address = None,
      ps_interface = None\<rparr>"

section \<open>Command-line options (\<open>psbench/argparse.py\<close>)\<close>

subsection \<open>The regular expressions\<close>

text \<open>
  The fragment of Python's \<open>re\<close> that the patterns of the source use: literal characters,
  \<open>\s\<close>, \<open>$\<close>, concatenation and alternation. \<open>rmatch r s\<close> lists what is left of \<open>s\<close>
  after each way of matching \<open>r\<close> at its start; \<open>re_search\<close> tries every start position,
  as \<open>re.search\<close> does, and tells whether there is a match.
\<close>

datatype regex =
    Eps
  | Lit char
  | Whitespace
  | EndOfString
  | Cat regex regex
  | Alt regex regex

text \<open>The whitespace of a \<open>str\<close> pattern, among the code points below 256.\<close>

definition is_space :: "char \<Rightarrow> bool" where
  "is_space c = (of_char c \<in> {9, 10, 11, 12, 13, 28, 29, 30, 31, 32, 133, 160 :: nat})"

text \<open>\<open>$\<close> matches at the end of the string and just before a newline that ends it.\<close>

fun rmatch :: "regex \<Rightarrow> string \<Rightarrow> string list" where
  "rmatch Eps s = [s]"
| "rmatch (Lit c) s = (case s of [] \<Rightarrow> [] | x # t \<Rightarrow> if x = c then [t] else [])"
| "rmatch Whitespace s = (case s of [] \<Rightarrow> [] | x # t \<Rightarrow> if is_space x then [t] else [])"
| "rmatch EndOfString s = (if s = [] \<or> s = [CHR 0x0A] then [s] else [])"
| "rmatch (Cat r1 r2) s = concat (map (rmatch r2) (rmatch r1 s))"
| "rmatch (Alt r1 r2) s = rmatch r1 s @ rmatch r2 s"

fun re_search :: "regex \<Rightarrow> string \<Rightarrow> bool" where
  "re_search r [] = (rmatch r [] \<noteq> [])"
| "re_search r (c # s) = (rmatch r (c # s) \<noteq> [] \<or> re_search r s)"

text \<open>A literal word as a pattern.\<close>

fun lit :: "string \<Rightarrow> regex" where
  "lit [] = Eps"
| "lit (c # cs) = Cat (Lit c) (lit cs)"

text \<open>\<open>'--ps-backend( |=)' + alternatives\<close>, and the patterns of the source.\<close>

definition ps_backend_pattern :: "regex \<Rightarrow> regex" where
  "ps_backend_pattern choice =
     Cat (lit ''--ps-backend'') (Cat (Alt (Lit CHR '' '') (Lit CHR ''='')) choice)"

definition endpoint_pattern :: regex where
  "endpoint_pattern = ps_backend_pattern (lit ''ENDPOINT'')"

definition file_pattern :: regex where
  "file_pattern = ps_backend_pattern (lit ''FILE'')"

definition globus_pattern :: regex where
  "globus_pattern = ps_backend_pattern (lit ''GLOBUS'')"

definition host_pattern :: regex where
  "host_pattern = ps_backend_pattern (lit ''REDIS'')"

definition port_pattern :: regex where
  "port_pattern =
     ps_backend_pattern (Alt (lit ''REDIS'') (Alt (lit ''MARGO'') (Alt (lit ''UCX'') (lit ''ZMQ''))))"

definition ipfs_pattern :: regex where
  "ipfs_pattern = Cat (lit ''--ipfs'') (Alt EndOfString Whitespace)"

subsection \<open>The parser\<close>

text \<open>\<open>' '.join(sys.argv)\<close>\<close>

fun join_args :: "string list \<Rightarrow> string" where
  "join_args [] = []"
| "join_args [a] = a"
| "join_args (a # b # rest) = a @ '' '' @ join_args (b # rest)"

text \<open>
  An argument as \<open>add_argument\<close> records it, and a parser as the table of its arguments
  by option string. That \<open>argparse\<close> refuses an option string added twice is not
  modelled.
\<close>

record argument =
  required :: bool
  choices :: "string list option"
  default_value :: "string option"
  store_true :: bool

type_synonym parser = "string \<rightharpoonup> argument"

definition add_argument :: "string \<Rightarrow> argument \<Rightarrow> parser \<Rightarrow> parser" where
  "add_argument name a p = p(name \<mapsto> a)"

definition plain_argument :: "bool \<Rightarrow> argument" where
  "plain_argument req = \<lparr>required = req, choices = None, default_value = None, store_true = False\<rparr>"

definition add_ipfs_options :: "string list \<Rightarrow> parser \<Rightarrow> parser" where
  "add_ipfs_options argv p =
     (let args_str = join_args argv;
          p1 = add_argument ''--ipfs''
                 \<lparr>required = False, choices = None, default_value = None, store_true = True\<rparr> p;
          p2 = add_argument ''--ipfs-local-dir''
                 (plain_argument (re_search ipfs_pattern args_str)) p1;
          p3 = add_argument ''--ipfs-remote-dir''
                 (plain_argument (re_search ipfs_pattern args_str)) p2
      in p3)"

definition add_proxystore_options :: "string list \<Rightarrow> bool \<Rightarrow> parser \<Rightarrow> parser" where
  "add_proxystore_options argv req p =
     (let p1 = add_argument ''--ps-backend''
                 \<lparr>required = req,
                  choices = Some [''FILE'', ''GLOBUS'', ''REDIS'', ''ENDPOINT'', ''MARGO'', ''UCX'',
                                  ''ZMQ''],
                  default_value = None, store_true = False\<rparr> p;
          args_str = join_args argv;
          p2 = add_argument ''--ps-endpoints''
                 (plain_argument (re_search endpoint_pattern args_str)) p1;
          p3 = add_argument ''--ps-file-dir''
                 (plain_argument (re_search file_pattern args_str)) p2;
          p4 = add_argument ''--ps-globus-config''
                 (plain_argument (re_search globus_pattern args_str)) p3;
          p5 = add_argument ''--ps-host''
                 (plain_argument (re_search host_pattern args_str)) p4;
          p6 = add_argument ''--ps-port''
                 (plain_argument (re_search port_pattern args_str)) p5;
          p7 = add_argument ''--ps-margo-protocol''
                 \<lparr>required = False, choices = None, default_value = Some ''tcp'',
                  store_true = False\<rparr> p6;
          p8 = add_argument ''--ps-address'' (plain_argument False) p7;
          p9 = add_argument ''--ps-interface'' (plain_argument False) p8
      in p9)"

text \<open>Whether the parser requires an option.\<close>

definition is_required :: "parser \<Rightarrow> string \<Rightarrow> bool option" where
  "is_required p name = map_option required (p name)"

text \<open>
  What the patterns are meant to detect, stated on the joined argument string without
  regular expressions: the text \<open>--ps-backend\<close>, a space or \<open>=\<close>, and the name of the
  backend, somewhere in the string; and the text \<open>--ipfs\<close> followed by the end of the
  string, by a final newline, or by a whitespace character.
\<close>

definition backend_selected :: "string \<Rightarrow> string \<Rightarrow> bool" where
  "backend_selected name s =
     (sublist (''--ps-backend '' @ name) s \<or> sublist (''--ps-backend='' @ name) s)"

definition ipfs_selected :: "string \<Rightarrow> bool" where
  "ipfs_selected s =
     (suffix ''--ipfs'' s \<or> suffix (''--ipfs'' @ [CHR 0x0A]) s
      \<or> (\<exists>c \<in> set s. is_space c \<and> sublist (''--ipfs'' @ [c]) s))"

section \<open>The CSV results logger (\<open>psbench/results.py\<close>)\<close>

text \<open>
  The logger is described by the specification and exercised by
  \<open>tests/results_test.py\<close>; the definitions of this section follow the specification and
  those tests.
\<close>

text \<open>
  Modelled from the spec: the record types the logger accepts and \<open>field_names\<close>, which
  "reflects the field names of an arbitrary record type via three alternative
  introspection strategies (named-tuple fields, dataclass fields, validated-model
  fields)". A record type is given by its shape and its declared field names; the tests
  \<open>test_field_names_*\<close> expect the declared names, in order, from each shape.
\<close>

datatype record_type =
    NamedTupleType "string list"
  | DataclassType "string list"
  | BaseModelType "string list"

fun field_names :: "record_type \<Rightarrow> string list" where
  "field_names (NamedTupleType names) = names"
| "field_names (DataclassType names) = names"
| "field_names (BaseModelType names) = names"

text \<open>The files: a CSV file is the list of its rows, a row the list of its cells.\<close>

type_synonym files = "string \<rightharpoonup> string list list"

record CSVLogger =
  log_path :: string
  log_fields :: "string list"

text \<open>
  Modelled from the spec: the constructor \<open>CSVLogger(filepath, data_type)\<close>, which "opens a
  file for append-or-create, ..., writes a header only when the file is newly created,
  raises if a caller supplies a record type whose field set doesn't match a file's
  existing header". An existing file without any row has no header to disagree with.
\<close>

definition CSVLogger_init ::
  "string \<Rightarrow> record_type \<Rightarrow> files \<Rightarrow> py_error + (CSVLogger \<times> files)" where
  "CSVLogger_init filepath data_type fs =
     (let names = field_names data_type;
          logger = \<lparr>log_path = filepath, log_fields = names\<rparr>
      in case fs filepath of
           None \<Rightarrow> Inr (logger, fs(filepath \<mapsto> [names]))
         | Some [] \<Rightarrow> Inr (logger, fs)
         | Some (header # rows) \<Rightarrow>
             if set header \<noteq> set names
             then Inl (ValueError ''CSV headers do not match the fields of the data type'')
             else Inr (logger, fs))"

text \<open>
  Modelled from the spec: \<open>log\<close> appends one row, the values of a record in the order of
  the fields, to the file ("rows written to a CSV file"); the tests count one line per
  call. \<open>close\<close> leaves the file as it is.
\<close>

definition log_row :: "CSVLogger \<Rightarrow> string list \<Rightarrow> files \<Rightarrow> files" where
  "log_row logger row fs =
     fs(log_path logger \<mapsto> (case fs (log_path logger) of None \<Rightarrow> [] | Some rows \<Rightarrow> rows) @ [row])"

fun log_rows :: "CSVLogger \<Rightarrow> string list list \<Rightarrow> files \<Rightarrow> files" where
  "log_rows logger [] fs = fs"
| "log_rows logger (row # rows) fs = log_rows logger rows (log_row logger row fs)"

text \<open>
  One use of the logger, as in the tests: construct it, log some records, close it; and
  a sequence of such uses on the same path, stopping at the first that raises.
\<close>

definition logger_session ::
  "string \<Rightarrow> record_type \<times> string list list \<Rightarrow> files \<Rightarrow> py_error + files" where
  "logger_session filepath use fs =
     (case CSVLogger_init filepath (fst use) fs of
        Inl err \<Rightarrow> Inl err
      | Inr (logger, fs') \<Rightarrow> Inr (log_rows logger (snd use) fs'))"

fun logger_sessions ::
  "string \<Rightarrow> (record_type \<times> string list list) list \<Rightarrow> files \<Rightarrow> py_error + files" where
  "logger_sessions filepath [] fs = Inr fs"
| "logger_sessions filepath (use # uses) fs =
     (case logger_session filepath use fs of
        Inl err \<Rightarrow> Inl err
      | Inr fs' \<Rightarrow> logger_sessions filepath uses fs')"

text \<open>The three record types of the tests and the uses of \<open>test_csv_logger_append\<close>.\<close>

definition test_fields :: "string list" where
  "test_fields = [''time'', ''value'', ''result'']"

definition test_append_uses :: "(record_type \<times> string list list) list" where
  "test_append_uses =
     [(NamedTupleType test_fields, [[''1.0'', ''2'', ''3'']]),
      (DataclassType test_fields, [[''4.0'', ''5'', ''6''], [''7.0'', ''8'', ''9'']]),
      (BaseModelType test_fields, [[''4.0'', ''5'', ''6''], [''7.0'', ''8'', ''9'']])]"

section \<open>Properties of the benchmark loop\<close>

subsection \<open>State updates\<close>

lemma do_call_simps [simp]:
  "running_tasks (do_call c s) = running_tasks s"
  "completed_tasks (do_call c s) = completed_tasks s"
  "stop_generator (do_call c s) = stop_generator s"
  "calls (do_call c s) = calls s @ [c]"
  "deque_history (do_call c s) = deque_history s"
  by (simp_all add: do_call_def)

lemma append_task_simps [simp]:
  "running_tasks (append_task f s) = running_tasks s @ [f]"
  "completed_tasks (append_task f s) = completed_tasks s"
  "stop_generator (append_task f s) = stop_generator s"
  "calls (append_task f s) = calls s"
  "deque_history (append_task f s) = deque_history s @ [running_tasks s @ [f]]"
  by (simp_all add: append_task_def)

lemma incr_completed_simps [simp]:
  "running_tasks (incr_completed s) = running_tasks s"
  "completed_tasks (incr_completed s) = Suc (completed_tasks s)"
  "stop_generator (incr_completed s) = stop_generator s"
  "calls (incr_completed s) = calls s"
  "deque_history (incr_completed s) = deque_history s"
  by (simp_all add: incr_completed_def)

lemma set_result_simps [simp]:
  "running_tasks (set_result v s) = running_tasks s"
  "completed_tasks (set_result v s) = completed_tasks s"
  "stop_generator (set_result v s) = Some v"
  "calls (set_result v s) = calls s @ [SetResult v]"
  "deque_history (set_result v s) = deque_history s"
  by (simp_all add: set_result_def)

lemma new_deque_simps [simp]:
  "running_tasks (new_deque s) = []"
  "completed_tasks (new_deque s) = completed_tasks s"
  "stop_generator (new_deque s) = stop_generator s"
  "calls (new_deque s) = calls s"
  "deque_history (new_deque s) = deque_history s @ [[]]"
  by (simp_all add: new_deque_def)

lemma popleft_Inr:
  assumes "popleft s = Inr (f, s')"
  shows "running_tasks s = f # running_tasks s'"
    and "calls s' = calls s"
    and "completed_tasks s' = completed_tasks s"
    and "stop_generator s' = stop_generator s"
    and "deque_history s' = deque_history s @ [running_tasks s']"
    and "length (running_tasks s) = Suc (length (running_tasks s'))"
  using assms by (auto simp: popleft_def split: list.splits)

lemma popleft_Inl: "popleft s = Inl err \<Longrightarrow> running_tasks s = []"
  by (auto simp: popleft_def split: list.splits)

lemma popleft_nonempty:
  "running_tasks s \<noteq> [] \<Longrightarrow> \<exists>s'. popleft s = Inr (hd (running_tasks s), s')"
  by (auto simp: popleft_def split: list.splits)

lemma awaited_of_append [simp]: "awaited_of (xs @ ys) = awaited_of xs @ awaited_of ys"
  by (induction xs rule: awaited_of.induct) simp_all

lemma submitted_of_append [simp]: "submitted_of (xs @ ys) = submitted_of xs @ submitted_of ys"
  by (induction xs rule: submitted_of.induct) simp_all

lemma awaited_of_map_ResultCompute [simp]: "awaited_of (map ResultCompute ts) = ts"
  by (induction ts) simp_all

lemma submitted_of_map_ResultCompute [simp]: "submitted_of (map ResultCompute ts) = []"
  by (induction ts) simp_all

subsection \<open>The final drain\<close>

lemma drain_Nil: "running_tasks s = [] \<Longrightarrow> drain s = (None, s)"
  by (subst drain.simps) simp

lemma drain_Cons:
  "popleft s = Inr (f, s1) \<Longrightarrow> drain s = drain (incr_completed (do_call (ResultCompute f) s1))"
  by (subst drain.simps) (auto simp: popleft_def split: list.splits)

lemma drain_result:
  "drain s = (None, snd (drain s))
   \<and> running_tasks (snd (drain s)) = []
   \<and> completed_tasks (snd (drain s)) = completed_tasks s + length (running_tasks s)
   \<and> calls (snd (drain s)) = calls s @ map ResultCompute (running_tasks s)
   \<and> stop_generator (snd (drain s)) = stop_generator s"
proof (induction s rule: drain.induct)
  case (1 s)
  show ?case
  proof (cases "running_tasks s")
    case Nil
    then show ?thesis by (simp add: drain_Nil)
  next
    case (Cons f rest)
    then obtain s1 where p: "popleft s = Inr (f, s1)"
      using popleft_nonempty [of s] by auto
    note q = popleft_Inr [OF p]
    define t where "t = incr_completed (do_call (ResultCompute f) s1)"
    have ih: "drain t = (None, snd (drain t))
       \<and> running_tasks (snd (drain t)) = []
       \<and> completed_tasks (snd (drain t)) = completed_tasks t + length (running_tasks t)
       \<and> calls (snd (drain t)) = calls t @ map ResultCompute (running_tasks t)
       \<and> stop_generator (snd (drain t)) = stop_generator t"
      unfolding t_def using "1.IH" [OF _ p refl] Cons by simp
    have d: "drain s = drain t"
      unfolding t_def using p by (rule drain_Cons)
    have t: "completed_tasks t = Suc (completed_tasks s)" "running_tasks t = running_tasks s1"
      "calls t = calls s @ [ResultCompute f]" "stop_generator t = stop_generator s"
      unfolding t_def using q by simp_all
    show ?thesis
      unfolding d using ih t q(1) by simp
  qed
qed

lemma drain_history:
  "\<forall>d \<in> set (deque_history (snd (drain s))).
      d \<in> set (deque_history s) \<or> length d < length (running_tasks s)"
proof (induction s rule: drain.induct)
  case (1 s)
  show ?case
  proof (cases "running_tasks s")
    case Nil
    then show ?thesis by (simp add: drain_Nil)
  next
    case (Cons f rest)
    then obtain s1 where p: "popleft s = Inr (f, s1)"
      using popleft_nonempty [of s] by auto
    note q = popleft_Inr [OF p]
    define t where "t = incr_completed (do_call (ResultCompute f) s1)"
    have ih: "\<forall>d \<in> set (deque_history (snd (drain t))).
                 d \<in> set (deque_history t) \<or> length d < length (running_tasks t)"
      unfolding t_def using "1.IH" [OF _ p refl] Cons by simp
    have d: "drain s = drain t"
      unfolding t_def using p by (rule drain_Cons)
    have t: "deque_history t = deque_history s @ [running_tasks s1]" "running_tasks t = running_tasks s1"
      unfolding t_def using q by simp_all
    show ?thesis
      unfolding d using ih t q(1) by auto
  qed
qed

subsection \<open>One iteration\<close>

lemma popleft_append_task:
  "\<exists>f s3. popleft (append_task i s) = Inr (f, s3)"
  by (auto simp: popleft_def split: list.splits)

lemma popleft_after_append:
  assumes "popleft (append_task i s) = Inr (f, s3)"
  shows "length (running_tasks s3) = length (running_tasks s)"
    and "f # running_tasks s3 = running_tasks s @ [i]"
    and "calls s3 = calls s"
    and "completed_tasks s3 = completed_tasks s"
    and "stop_generator s3 = stop_generator s"
    and "deque_history s3 = deque_history s @ [running_tasks s @ [i], running_tasks s3]"
proof -
  note q = popleft_Inr [OF assms]
  show "length (running_tasks s3) = length (running_tasks s)" using q(6) by simp
  show "f # running_tasks s3 = running_tasks s @ [i]" using q(1) by simp
  show "calls s3 = calls s" using q(2) by simp
  show "completed_tasks s3 = completed_tasks s" using q(3) by simp
  show "stop_generator s3 = stop_generator s" using q(4) by simp
  show "deque_history s3 = deque_history s @ [running_tasks s @ [i], running_tasks s3]"
    using q(5) by simp
qed

lemma loop_body_cases:
  assumes "loop_body cw sl p i it s = (r, s')"
  obtains
    (before) "p = Some BeforeSubmit" "r = Some KeyboardInterrupt" "s' = s"
  | (submitted) "p = Some AfterSubmit" "r = Some KeyboardInterrupt"
      "s' = do_call (SubmitCompute i (unwrap it) sl) s"
  | (appended) "p = Some AfterAppend" "r = Some KeyboardInterrupt"
      "s' = append_task i (do_call (SubmitCompute i (unwrap it) sl) s)"
  | (kept) "\<not> cw \<le> int (length (running_tasks s)) + 1"
      "r = (if p = None then None else Some KeyboardInterrupt)"
      "s' = append_task i (do_call (SubmitCompute i (unwrap it) sl) s)"
  | (popped) f s3 where "cw \<le> int (length (running_tasks s)) + 1"
      "popleft (append_task i (do_call (SubmitCompute i (unwrap it) sl) s)) = Inr (f, s3)"
      "p = Some AfterPopleft" "r = Some KeyboardInterrupt" "s' = s3"
  | (in_result) f s3 where "cw \<le> int (length (running_tasks s)) + 1"
      "popleft (append_task i (do_call (SubmitCompute i (unwrap it) sl) s)) = Inr (f, s3)"
      "p = Some InResult" "r = Some KeyboardInterrupt" "s' = do_call (ResultCompute f) s3"
  | (counted) f s3 where "cw \<le> int (length (running_tasks s)) + 1"
      "popleft (append_task i (do_call (SubmitCompute i (unwrap it) sl) s)) = Inr (f, s3)"
      "p = None" "r = None" "s' = incr_completed (do_call (ResultCompute f) s3)"
proof -
  let ?s2 = "append_task i (do_call (SubmitCompute i (unwrap it) sl) s)"
  obtain f s3 where pl: "popleft ?s2 = Inr (f, s3)"
    using popleft_append_task by blast
  have len: "int (length (running_tasks ?s2)) = int (length (running_tasks s)) + 1"
    by simp
  show thesis
  proof (cases "cw \<le> int (length (running_tasks s)) + 1")
    case full: True
    show ?thesis
    proof (cases p)
      case None
      show ?thesis
        by (rule counted [OF full pl None])
           (use assms None full pl in \<open>simp_all add: loop_body_def Let_def\<close>)
    next
      case (Some q)
      show ?thesis
      proof (cases q)
        case BeforeSubmit
        show ?thesis
          by (rule before) (use assms Some BeforeSubmit in \<open>simp_all add: loop_body_def\<close>)
      next
        case AfterSubmit
        show ?thesis
          by (rule submitted)
             (use assms Some AfterSubmit in \<open>simp_all add: loop_body_def Let_def\<close>)
      next
        case AfterAppend
        show ?thesis
          by (rule appended)
             (use assms Some AfterAppend in \<open>simp_all add: loop_body_def Let_def\<close>)
      next
        case AfterPopleft
        show ?thesis
          by (rule popped [OF full pl])
             (use assms Some AfterPopleft full pl in \<open>simp_all add: loop_body_def Let_def\<close>)
      next
        case InResult
        show ?thesis
          by (rule in_result [OF full pl])
             (use assms Some InResult full pl in \<open>simp_all add: loop_body_def Let_def\<close>)
      qed
    qed
  next
    case room: False
    show ?thesis
    proof (cases "p = Some BeforeSubmit \<or> p = Some AfterSubmit \<or> p = Some AfterAppend")
      case True
      then consider "p = Some BeforeSubmit" | "p = Some AfterSubmit" | "p = Some AfterAppend"
        by blast
      then show ?thesis
      proof cases
        case 1
        show ?thesis
          by (rule before) (use assms 1 in \<open>simp_all add: loop_body_def\<close>)
      next
        case 2
        show ?thesis
          by (rule submitted) (use assms 2 in \<open>simp_all add: loop_body_def Let_def\<close>)
      next
        case 3
        show ?thesis
          by (rule appended) (use assms 3 in \<open>simp_all add: loop_body_def Let_def\<close>)
      qed
    next
      case False
      show ?thesis
        by (rule kept [OF room])
           (use assms False room in \<open>simp_all add: loop_body_def Let_def\<close>)
    qed
  qed
qed

lemma loop_body_bound:
  assumes "\<forall>d \<in> set (deque_history s). int (length d) \<le> cw"
    and "int (length (running_tasks s)) < cw"
    and "loop_body cw sl p i it s = (r, s')"
  shows "(\<forall>d \<in> set (deque_history s'). int (length d) \<le> cw)
         \<and> int (length (running_tasks s')) \<le> cw
         \<and> (r = None \<longrightarrow> int (length (running_tasks s')) < cw)"
  using assms(3)
proof (cases rule: loop_body_cases)
  case before
  then show ?thesis using assms(1,2) by simp
next
  case submitted
  then show ?thesis using assms(1,2) by simp
next
  case appended
  then show ?thesis using assms(1,2) by auto
next
  case kept
  then show ?thesis using assms(1,2) by auto
next
  case (popped f s3)
  note q = popleft_after_append [OF popped(2)]
  show ?thesis using assms(1,2) popped(4,5) q(1,6) by auto
next
  case (in_result f s3)
  note q = popleft_after_append [OF in_result(2)]
  show ?thesis using assms(1,2) in_result(4,5) q(1,6) by auto
next
  case (counted f s3)
  note q = popleft_after_append [OF counted(2)]
  show ?thesis using assms(1,2) counted(4,5) q(1,6) by auto
qed

lemma consume_bound:
  assumes "\<forall>d \<in> set (deque_history s). int (length d) \<le> cw"
    and "int (length (running_tasks s)) < cw"
    and "consume cw sl intr i xs s = (r, s')"
  shows "(\<forall>d \<in> set (deque_history s'). int (length d) \<le> cw)
         \<and> int (length (running_tasks s')) \<le> cw"
  using assms
proof (induction xs arbitrary: i s)
  case Nil
  then show ?case by auto
next
  case (Cons x xs)
  obtain r1 s1 where b: "loop_body cw sl (point_at intr i) i x s = (r1, s1)"
    by force
  note lb = loop_body_bound [OF Cons.prems(1,2) b]
  show ?case
  proof (cases r1)
    case None
    then have "consume cw sl intr (Suc i) xs s1 = (r, s')"
      using Cons.prems(3) b by simp
    then show ?thesis
      using Cons.IH [of s1 "Suc i"] lb None by blast
  next
    case (Some err)
    then have "s' = s1" using Cons.prems(3) b by simp
    then show ?thesis using lb by simp
  qed
qed


lemma loop_body_error:
  assumes "loop_body cw sl p i it s = (Some err, s')"
  shows "err = KeyboardInterrupt \<and> p \<noteq> None"
  using assms by (cases rule: loop_body_cases) (auto split: if_splits)



lemma consume_error:
  "consume cw sl intr i xs s = (Some err, s') \<Longrightarrow> err = KeyboardInterrupt"
proof (induction xs arbitrary: i s)
  case Nil
  then show ?case by (auto split: if_splits)
next
  case (Cons x xs)
  obtain r1 s1 where b: "loop_body cw sl (point_at intr i) i x s = (r1, s1)"
    by force
  show ?case
  proof (cases r1)
    case None
    then show ?thesis using Cons b by simp
  next
    case (Some e1)
    then show ?thesis using Cons.prems b loop_body_error [of cw sl _ i x s e1 s1] by simp
  qed
qed

subsection \<open>The whole run\<close>

lemma pregenerate_default:
  "pregenerate sz interval default_example_size default_example_time
     = Inr (real_of_int sz / 400000000 > interval)"
  by (simp add: pregenerate_def py_truediv_def default_example_size_def default_example_time_def)

lemma prologue_one: "max_workers b = 1 \<Longrightarrow> prologue b config = Inl ZeroDivisionError"
  by (simp add: prologue_def py_truediv_def)

lemma prologue_ok:
  "max_workers b \<noteq> 1 \<Longrightarrow>
   prologue b config =
     Inr (new_deque (do_call
       (SubmitGenerator (data_size_bytes config) (task_count config)
          (real_of_int (data_size_bytes config) / 400000000
             > task_sleep config / real_of_int (max_workers b - 1))
          (task_sleep config / real_of_int (max_workers b - 1))) init_state))"
  by (simp add: prologue_def py_truediv_def pregenerate_default Let_def)

lemma finish_eq:
  "finish b config e s =
     ((case stream_kind b of
         None \<Rightarrow> Inl AssertionError
       | Some kind \<Rightarrow>
           Inr \<lparr>res_executor = class_name (executor b),
                res_connector = connector_name b,
                res_stream = kind,
                res_data_size_bytes = data_size_bytes config,
                res_task_count = task_count config,
                res_task_sleep = task_sleep config,
                res_workers = max_workers b,
                res_completed_tasks = completed_tasks s + length (running_tasks s),
                res_start_submit_tasks_timestamp = clock_start e,
                res_end_tasks_done_timestamp = clock_end e\<rparr>),
      snd (drain (do_call ResultGenerator s)))"
proof -
  have d: "drain (do_call ResultGenerator s) = (None, snd (drain (do_call ResultGenerator s)))"
    and c: "completed_tasks (snd (drain (do_call ResultGenerator s)))
              = completed_tasks s + length (running_tasks s)"
    using drain_result [of "do_call ResultGenerator s"] by simp_all
  show ?thesis
    unfolding finish_def Let_def
    by (subst d) (simp add: c split: option.splits)
qed

lemma run_eq:
  assumes "prologue b config = Inr s1" and "consume_loop b config e s1 = (r, s2)"
  shows "run b config e =
           finish b config e
             (do_call ResultGenerator (if r = None then s2 else set_result True s2))"
proof (cases r)
  case None
  then show ?thesis using assms by (simp add: run_def)
next
  case (Some err)
  then have "err = KeyboardInterrupt"
    using assms(2) consume_error unfolding consume_loop_def by blast
  then show ?thesis using assms Some by (simp add: run_def)
qed

lemma init_state_simps [simp]:
  "running_tasks init_state = []" "completed_tasks init_state = 0"
  "stop_generator init_state = None" "calls init_state = []" "deque_history init_state = []"
  by (simp_all add: init_state_def)

text \<open>The equations that evaluate a run on a concrete input.\<close>

lemmas run_defs = run_def prologue_def py_truediv_def pregenerate_def default_example_size_def
  default_example_time_def consume_loop_def loop_body_def point_at_def append_task_def
  do_call_def new_deque_def popleft_def init_state_def incr_completed_def finish_def
  drain.simps set_result_def Let_def


subsection \<open>The bound on the deque\<close>

lemma run_deque_bounded:
  assumes "1 \<le> max_workers b"
  shows "\<forall>d \<in> set (deque_history (snd (run b config e))). int (length d) \<le> max_workers b - 1"
proof (cases "max_workers b = 1")
  case True
  then show ?thesis by (simp add: run_def prologue_one)
next
  case False
  let ?cw = "max_workers b - 1"
  obtain s1 where p: "prologue b config = Inr s1"
    and s1: "deque_history s1 = [[]]" "running_tasks s1 = []"
    using prologue_ok [OF False, of config] by simp
  obtain r s2 where c: "consume_loop b config e s1 = (r, s2)" by force
  have cw: "0 < ?cw" using assms False by simp
  have b2: "(\<forall>d \<in> set (deque_history s2). int (length d) \<le> ?cw)
            \<and> int (length (running_tasks s2)) \<le> ?cw"
    using consume_bound [of s1 ?cw "task_sleep config" "interrupt e" 0 "stream e" r s2]
      c s1 cw unfolding consume_loop_def by simp
  let ?s3 = "do_call ResultGenerator
               (do_call ResultGenerator (if r = None then s2 else set_result True s2))"
  have fin: "snd (run b config e) = snd (drain ?s3)"
    unfolding run_eq [OF p c] finish_eq by simp
  have b3: "(\<forall>d \<in> set (deque_history ?s3). int (length d) \<le> ?cw)
            \<and> int (length (running_tasks ?s3)) \<le> ?cw"
    using b2 by simp
  show ?thesis
    unfolding fin using drain_history [of ?s3] b3 by fastforce
qed

lemma loop_body_drains_oldest:
  assumes "cw \<le> int (length (running_tasks s)) + 1"
  shows "fst (loop_body cw sl None i it s) = None
       \<and> running_tasks (snd (loop_body cw sl None i it s)) = tl (running_tasks s @ [i])
       \<and> calls (snd (loop_body cw sl None i it s))
           = calls s @ [SubmitCompute i (unwrap it) sl, ResultCompute (hd (running_tasks s @ [i]))]
       \<and> completed_tasks (snd (loop_body cw sl None i it s)) = completed_tasks s + 1"
proof -
  obtain r s' where b: "loop_body cw sl None i it s = (r, s')" by force
  from b show ?thesis
  proof (cases rule: loop_body_cases)
    case (counted f s3)
    note q = popleft_after_append [OF counted(2)]
    have f: "f = hd (running_tasks s @ [i])"
      using arg_cong [OF q(2), of hd] by simp
    have t: "running_tasks s3 = tl (running_tasks s @ [i])"
      using arg_cong [OF q(2), of tl] by simp
    show ?thesis unfolding b using counted(4,5) q(3,4) f t by simp
  next
    case kept
    then show ?thesis using assms by simp
  qed simp_all
qed


text \<open>
  Claim C1, as amended. In every execution of \<open>run\<close> on a benchmark whose \<open>max_workers\<close> is
  at least 1, every value the \<open>running_tasks\<close> deque takes, from its creation to the
  return, has at most \<open>max_workers - 1\<close> elements. And in an iteration that is not
  interrupted, when the append brings the deque to \<open>max_workers - 1\<close> elements or more,
  the iteration pops the oldest future, calls its \<open>result()\<close> and counts it before it
  ends, that is before the next submission.
\<close>

theorem running_tasks_bounded:
  "1 \<le> max_workers b \<Longrightarrow>
     (\<forall>d \<in> set (deque_history (snd (run b config e))). int (length d) \<le> max_workers b - 1)
     \<and> (max_workers b - 1 \<le> int (length (running_tasks s)) + 1 \<longrightarrow>
          fst (loop_body (max_workers b - 1) sl None i it s) = None
        \<and> running_tasks (snd (loop_body (max_workers b - 1) sl None i it s))
            = tl (running_tasks s @ [i])
        \<and> calls (snd (loop_body (max_workers b - 1) sl None i it s))
            = calls s @ [SubmitCompute i (unwrap it) sl,
                         ResultCompute (hd (running_tasks s @ [i]))]
        \<and> completed_tasks (snd (loop_body (max_workers b - 1) sl None i it s))
            = completed_tasks s + 1)"
proof (intro conjI impI)
  assume "1 \<le> max_workers b"
  then show "\<forall>d \<in> set (deque_history (snd (run b config e))). int (length d) \<le> max_workers b - 1"
    by (rule run_deque_bounded)
next
  assume a: "max_workers b - 1 \<le> int (length (running_tasks s)) + 1"
  note l = loop_body_drains_oldest [OF a, of sl i it]
  show "fst (loop_body (max_workers b - 1) sl None i it s) = None" using l by (rule conjunct1)
  show "running_tasks (snd (loop_body (max_workers b - 1) sl None i it s))
            = tl (running_tasks s @ [i])" using l by (elim conjE)
  show "calls (snd (loop_body (max_workers b - 1) sl None i it s))
            = calls s @ [SubmitCompute i (unwrap it) sl,
                         ResultCompute (hd (running_tasks s @ [i]))]" using l by (elim conjE)
  show "completed_tasks (snd (loop_body (max_workers b - 1) sl None i it s))
            = completed_tasks s + 1" using l by (elim conjE)
qed


text \<open>The theorem at a run of three workers over four items, and at an iteration that
  starts with one future in the deque.\<close>

theorem running_tasks_bounded_witness:
  "1 \<le> max_workers (sample_benchmark 3 (Some ''redis''))
   \<and> list_all (\<lambda>d. int (length d) \<le> max_workers (sample_benchmark 3 (Some ''redis'')) - 1)
        (deque_history (snd (run (sample_benchmark 3 (Some ''redis'')) sample_config
                                  (sample_env None))))
   \<and> max_workers (sample_benchmark 3 (Some ''redis'')) - 1
        \<le> int (length (running_tasks (append_task 0 init_state))) + 1
   \<and> running_tasks (snd (loop_body (max_workers (sample_benchmark 3 (Some ''redis'')) - 1) 1 None 1
                            (Bytes ''b'') (append_task 0 init_state))) = [1]"
proof -
  have h: "1 \<le> max_workers (sample_benchmark 3 (Some ''redis''))"
    by (simp add: sample_benchmark_def)
  have h2: "max_workers (sample_benchmark 3 (Some ''redis'')) - 1
        \<le> int (length (running_tasks (append_task 0 init_state))) + 1"
    by (simp add: sample_benchmark_def)
  note t = running_tasks_bounded [OF h, of sample_config "sample_env None"
      "append_task 0 init_state" 1 1 "Bytes ''b''"]
  have c1: "list_all (\<lambda>d. int (length d) \<le> max_workers (sample_benchmark 3 (Some ''redis'')) - 1)
        (deque_history (snd (run (sample_benchmark 3 (Some ''redis'')) sample_config
                                  (sample_env None))))"
    unfolding list_all_iff using t by (rule conjunct1)
  have c2: "running_tasks (snd (loop_body (max_workers (sample_benchmark 3 (Some ''redis'')) - 1) 1 None 1
                            (Bytes ''b'') (append_task 0 init_state))) = [1]"
    using t [THEN conjunct2, THEN mp, OF h2] by simp
  show ?thesis using h c1 h2 c2 by (intro conjI)
qed

text \<open>
  The claim as written, for every execution, fails on an executor that reports no
  workers: \<open>compute_workers\<close> is \<open>-1\<close>, and the deque holds one future after the first
  append.
\<close>

theorem running_tasks_bounded_counterexample:
  "deque_history (snd (run (sample_benchmark 0 (Some ''redis'')) sample_config
                           (sample_env None)))
     ! 1 = [0]
   \<and> int (length [0::nat]) > max_workers (sample_benchmark 0 (Some ''redis'')) - 1"
  by (simp add: run_defs sample_benchmark_def sample_config_def sample_env_def)


subsection \<open>Order of the futures and the run as a whole\<close>

lemma loop_body_fifo:
  assumes "submitted_of (calls s) = [0..<i]"
    and "sorted_wrt (<) (awaited_of (calls s) @ running_tasks s)"
    and "\<forall>x \<in> set (awaited_of (calls s) @ running_tasks s). x < i"
    and "loop_body cw sl p i it s = (r, s')"
  shows "sorted_wrt (<) (awaited_of (calls s') @ running_tasks s')
       \<and> ((r \<noteq> None \<and> submitted_of (calls s') = [0..<i]
              \<and> (\<forall>x \<in> set (awaited_of (calls s') @ running_tasks s'). x < i))
          \<or> (submitted_of (calls s') = [0..<Suc i]
              \<and> (\<forall>x \<in> set (awaited_of (calls s') @ running_tasks s'). x < Suc i)))"
proof -
  have grow: "sorted_wrt (<) ((awaited_of (calls s) @ running_tasks s) @ [i])"
    "\<forall>x \<in> set ((awaited_of (calls s) @ running_tasks s) @ [i]). x < Suc i"
    using assms(2,3) by (auto simp: sorted_wrt_append less_Suc_eq simp del: append_assoc)
  have sub: "submitted_of (calls s @ [SubmitCompute i (unwrap it) sl]) = [0..<Suc i]"
    using assms(1) by simp
  from assms(4) show ?thesis
  proof (cases rule: loop_body_cases)
    case before
    then show ?thesis using assms(1,2,3) by simp
  next
    case submitted
    have "awaited_of (calls s') @ running_tasks s' = awaited_of (calls s) @ running_tasks s"
      using submitted(3) by simp
    moreover have "submitted_of (calls s') = [0..<Suc i]" using submitted(3) sub by simp
    ultimately show ?thesis using assms(2,3) by (auto simp: less_Suc_eq simp del: upt_Suc)
  next
    case appended
    have "awaited_of (calls s') @ running_tasks s'
            = (awaited_of (calls s) @ running_tasks s) @ [i]"
      using appended(3) by simp
    moreover have "submitted_of (calls s') = [0..<Suc i]" using appended(3) sub by simp
    ultimately show ?thesis using grow by (simp del: upt_Suc append_assoc)
  next
    case kept
    have "awaited_of (calls s') @ running_tasks s'
            = (awaited_of (calls s) @ running_tasks s) @ [i]"
      using kept(3) by simp
    moreover have "submitted_of (calls s') = [0..<Suc i]" using kept(3) sub by simp
    ultimately show ?thesis using grow by (simp del: upt_Suc append_assoc)
  next
    case (popped f s3)
    note q = popleft_after_append [OF popped(2)]
    have s': "submitted_of (calls s') = [0..<Suc i]" using popped(5) q(3) sub by simp
    have aw: "awaited_of (calls s3) = awaited_of (calls s)" using q(3) by simp
    have full: "sorted_wrt (<) (awaited_of (calls s) @ f # running_tasks s3)"
      "\<forall>x \<in> set (awaited_of (calls s) @ f # running_tasks s3). x < Suc i"
      unfolding q(2) using grow by simp_all
    have "sorted_wrt (<) (awaited_of (calls s') @ running_tasks s')"
      "\<forall>x \<in> set (awaited_of (calls s') @ running_tasks s'). x < Suc i"
      using full unfolding popped(5) aw by (auto simp: sorted_wrt_append)
    then show ?thesis using s' by blast
  next
    case (in_result f s3)
    note q = popleft_after_append [OF in_result(2)]
    have s': "submitted_of (calls s') = [0..<Suc i]" using in_result(5) q(3) sub by simp
    have "awaited_of (calls s') @ running_tasks s' = awaited_of (calls s) @ f # running_tasks s3"
      using in_result(5) q(3) by simp
    then have "awaited_of (calls s') @ running_tasks s'
                 = (awaited_of (calls s) @ running_tasks s) @ [i]"
      unfolding q(2) by simp
    then show ?thesis using grow s' by (simp del: upt_Suc append_assoc)
  next
    case (counted f s3)
    note q = popleft_after_append [OF counted(2)]
    have s': "submitted_of (calls s') = [0..<Suc i]" using counted(5) q(3) sub by simp
    have "awaited_of (calls s') @ running_tasks s' = awaited_of (calls s) @ f # running_tasks s3"
      using counted(5) q(3) by simp
    then have "awaited_of (calls s') @ running_tasks s'
                 = (awaited_of (calls s) @ running_tasks s) @ [i]"
      unfolding q(2) by simp
    then show ?thesis using grow s' by (simp del: upt_Suc append_assoc)
  qed
qed

lemma loop_body_exact:
  assumes "submitted_of (calls s) = [0..<i]"
    and "awaited_of (calls s) @ running_tasks s = [0..<i]"
    and "completed_tasks s = length (awaited_of (calls s))"
    and "loop_body cw sl None i it s = (r, s')"
  shows "r = None \<and> submitted_of (calls s') = [0..<Suc i]
       \<and> awaited_of (calls s') @ running_tasks s' = [0..<Suc i]
       \<and> completed_tasks s' = length (awaited_of (calls s'))"
  using assms(4)
proof (cases rule: loop_body_cases)
  case kept
  then show ?thesis using assms(1,2,3) by simp
next
  case (counted f s3)
  note q = popleft_after_append [OF counted(2)]
  have "awaited_of (calls s') @ running_tasks s' = awaited_of (calls s) @ f # running_tasks s3"
    using counted(5) q(3) by simp
  then have "awaited_of (calls s') @ running_tasks s'
                    = (awaited_of (calls s) @ running_tasks s) @ [i]"
    unfolding q(2) by simp
  then show ?thesis using assms(1,2,3) counted(4,5) q(3,4) by simp
qed simp_all


lemma consume_fifo:
  assumes "submitted_of (calls s) = [0..<i]"
    and "sorted_wrt (<) (awaited_of (calls s) @ running_tasks s)"
    and "\<forall>x \<in> set (awaited_of (calls s) @ running_tasks s). x < i"
    and "consume cw sl intr i xs s = (r, s')"
  shows "sorted_wrt (<) (awaited_of (calls s') @ running_tasks s')
       \<and> (\<exists>m. submitted_of (calls s') = [0..<m]
              \<and> (\<forall>x \<in> set (awaited_of (calls s') @ running_tasks s'). x < m))"
  using assms
proof (induction xs arbitrary: i s)
  case Nil
  then show ?case by auto
next
  case (Cons x xs)
  obtain r1 s1 where b: "loop_body cw sl (point_at intr i) i x s = (r1, s1)"
    by force
  note f = loop_body_fifo [OF Cons.prems(1,2,3) b]
  show ?case
  proof (cases r1)
    case None
    then have c: "consume cw sl intr (Suc i) xs s1 = (r, s')"
      using Cons.prems(4) b by simp
    show ?thesis
      using Cons.IH [OF _ _ _ c] f None by blast
  next
    case (Some err)
    then have "s' = s1" using Cons.prems(4) b by simp
    then show ?thesis using f by blast
  qed
qed

lemma consume_exact:
  assumes "\<forall>j. i \<le> j \<and> j < i + length xs \<longrightarrow> point_at intr j = None"
    and "intr \<noteq> Some (i + length xs, BeforeSubmit)"
    and "submitted_of (calls s) = [0..<i]"
    and "awaited_of (calls s) @ running_tasks s = [0..<i]"
    and "completed_tasks s = length (awaited_of (calls s))"
    and "consume cw sl intr i xs s = (r, s')"
  shows "r = None \<and> submitted_of (calls s') = [0..<i + length xs]
       \<and> awaited_of (calls s') @ running_tasks s' = [0..<i + length xs]
       \<and> completed_tasks s' = length (awaited_of (calls s'))"
  using assms
proof (induction xs arbitrary: i s)
  case Nil
  then show ?case by auto
next
  case (Cons x xs)
  have p: "point_at intr i = None" using Cons.prems(1) by simp
  obtain r1 s1 where b: "loop_body cw sl None i x s = (r1, s1)"
    by force
  note k = loop_body_exact [OF Cons.prems(3,4,5) b]
  have c: "consume cw sl intr (Suc i) xs s1 = (r, s')"
    using Cons.prems(6) b p k by simp
  have "\<forall>j. Suc i \<le> j \<and> j < Suc i + length xs \<longrightarrow> point_at intr j = None"
    using Cons.prems(1) by simp
  moreover have "intr \<noteq> Some (Suc i + length xs, BeforeSubmit)"
    using Cons.prems(2) by simp
  ultimately show ?case
    using Cons.IH [OF _ _ _ _ _ c] k by simp
qed



lemma strict_sorted_subseq_upt:
  fixes xs :: "nat list"
  assumes "sorted_wrt (<) xs" and "\<forall>x \<in> set xs. x < m"
  shows "subseq xs [0..<m]"
proof -
  have "xs = filter (\<lambda>x. x \<in> set xs) [0..<m]"
  proof (rule sorted_distinct_set_unique)
    show "sorted xs" "distinct xs" using assms(1) by (simp_all add: strict_sorted_iff)
    show "sorted (filter (\<lambda>x. x \<in> set xs) [0..<m])" by (simp add: sorted_wrt_filter)
    show "distinct (filter (\<lambda>x. x \<in> set xs) [0..<m])" by simp
    show "set xs = set (filter (\<lambda>x. x \<in> set xs) [0..<m])" using assms(2) by auto
  qed
  then show ?thesis using subseq_filter_left [of "\<lambda>x. x \<in> set xs" "[0..<m]"] by simp
qed

lemma loop_body_calls_prefix:
  assumes "loop_body cw sl p i it s = (r, s')"
  shows "prefix (calls s) (calls s')"
  using assms
proof (cases rule: loop_body_cases)
  case (popped f s3)
  then show ?thesis using popleft_after_append(3) [OF popped(2)] by simp
next
  case (in_result f s3)
  then show ?thesis using popleft_after_append(3) [OF in_result(2)] by (simp add: prefix_def)
next
  case (counted f s3)
  then show ?thesis using popleft_after_append(3) [OF counted(2)] by (simp add: prefix_def)
qed (simp_all add: prefix_def)

lemma consume_calls_prefix:
  "consume cw sl intr i xs s = (r, s') \<Longrightarrow> prefix (calls s) (calls s')"
proof (induction xs arbitrary: i s)
  case Nil
  then show ?case by auto
next
  case (Cons x xs)
  obtain r1 s1 where b: "loop_body cw sl (point_at intr i) i x s = (r1, s1)"
    by force
  note p = loop_body_calls_prefix [OF b]
  show ?case
  proof (cases r1)
    case None
    then have "consume cw sl intr (Suc i) xs s1 = (r, s')"
      using Cons.prems b by simp
    then show ?thesis using Cons.IH p prefix_order.trans by blast
  next
    case (Some err)
    then show ?thesis using Cons.prems b p by simp
  qed
qed

text \<open>The final state of a run that passes the prologue, from the state at the end of the loop.\<close>

lemma run_final:
  assumes "prologue b config = Inr s1" and "consume_loop b config e s1 = (r, s2)"
  shows "calls (snd (run b config e))
           = calls s2 @ (if r = None then [] else [SetResult True])
               @ [ResultGenerator, ResultGenerator] @ map ResultCompute (running_tasks s2)"
    and "running_tasks (snd (run b config e)) = []"
    and "completed_tasks (snd (run b config e)) = completed_tasks s2 + length (running_tasks s2)"
    and "stop_generator (snd (run b config e))
           = (if r = None then stop_generator s2 else Some True)"
    and "fst (run b config e) =
          (case stream_kind b of
             None \<Rightarrow> Inl AssertionError
           | Some kind \<Rightarrow>
               Inr \<lparr>res_executor = class_name (executor b),
                    res_connector = connector_name b,
                    res_stream = kind,
                    res_data_size_bytes = data_size_bytes config,
                    res_task_count = task_count config,
                    res_task_sleep = task_sleep config,
                    res_workers = max_workers b,
                    res_completed_tasks = completed_tasks s2 + length (running_tasks s2),
                    res_start_submit_tasks_timestamp = clock_start e,
                    res_end_tasks_done_timestamp = clock_end e\<rparr>)"
proof -
  let ?s3 = "do_call ResultGenerator
               (do_call ResultGenerator (if r = None then s2 else set_result True s2))"
  have fin: "snd (run b config e) = snd (drain ?s3)"
    unfolding run_eq [OF assms] finish_eq by simp
  note d = drain_result [of ?s3]
  show "calls (snd (run b config e))
           = calls s2 @ (if r = None then [] else [SetResult True])
               @ [ResultGenerator, ResultGenerator] @ map ResultCompute (running_tasks s2)"
    unfolding fin using d by simp
  show "running_tasks (snd (run b config e)) = []"
    unfolding fin using d by simp
  show "completed_tasks (snd (run b config e)) = completed_tasks s2 + length (running_tasks s2)"
    unfolding fin using d by simp
  show "stop_generator (snd (run b config e))
           = (if r = None then stop_generator s2 else Some True)"
    unfolding fin using d by simp
  show "fst (run b config e) =
          (case stream_kind b of
             None \<Rightarrow> Inl AssertionError
           | Some kind \<Rightarrow>
               Inr \<lparr>res_executor = class_name (executor b),
                    res_connector = connector_name b,
                    res_stream = kind,
                    res_data_size_bytes = data_size_bytes config,
                    res_task_count = task_count config,
                    res_task_sleep = task_sleep config,
                    res_workers = max_workers b,
                    res_completed_tasks = completed_tasks s2 + length (running_tasks s2),
                    res_start_submit_tasks_timestamp = clock_start e,
                    res_end_tasks_done_timestamp = clock_end e\<rparr>)"
    unfolding run_eq [OF assms] finish_eq by (cases "stream_kind b") simp_all
qed

lemma run_final_observed:
  assumes "prologue b config = Inr s1" and "consume_loop b config e s1 = (r, s2)"
  shows "awaited_of (calls (snd (run b config e))) = awaited_of (calls s2) @ running_tasks s2"
    and "submitted_of (calls (snd (run b config e))) = submitted_of (calls s2)"
  unfolding run_final(1) [OF assms] by simp_all

lemma prologue_state:
  assumes "prologue b config = Inr s1"
  shows "running_tasks s1 = []" and "completed_tasks s1 = 0" and "stop_generator s1 = None"
    and "deque_history s1 = [[]]"
    and "calls s1 = [SubmitGenerator (data_size_bytes config) (task_count config)
          (real_of_int (data_size_bytes config) / 400000000
             > task_sleep config / real_of_int (max_workers b - 1))
          (task_sleep config / real_of_int (max_workers b - 1))]"
    and "max_workers b \<noteq> 1"
proof -
  have mw: "max_workers b \<noteq> 1" using assms prologue_one [of b config] by auto
  note p = prologue_ok [OF mw, of config]
  show "max_workers b \<noteq> 1" by (rule mw)
  show "running_tasks s1 = []" "completed_tasks s1 = 0" "stop_generator s1 = None"
    "deque_history s1 = [[]]"
    using assms p by auto
  show "calls s1 = [SubmitGenerator (data_size_bytes config) (task_count config)
          (real_of_int (data_size_bytes config) / 400000000
             > task_sleep config / real_of_int (max_workers b - 1))
          (task_sleep config / real_of_int (max_workers b - 1))]"
    using assms p by auto
qed

lemma run_fifo:
  "sorted_wrt (<) (awaited_of (calls (snd (run b config e))))
   \<and> (\<exists>m. submitted_of (calls (snd (run b config e))) = [0..<m]
          \<and> (\<forall>x \<in> set (awaited_of (calls (snd (run b config e)))). x < m))"
proof (cases "prologue b config")
  case (Inl err)
  then have "run b config e = (Inl err, init_state)" by (simp add: run_def)
  then show ?thesis using upt_0 [of 0] by (simp del: upt_0) (metis upt_0)
next
  case (Inr s1)
  obtain r s2 where c: "consume_loop b config e s1 = (r, s2)" by force
  note ps = prologue_state [OF Inr]
  have "sorted_wrt (<) (awaited_of (calls s2) @ running_tasks s2)
       \<and> (\<exists>m. submitted_of (calls s2) = [0..<m]
              \<and> (\<forall>x \<in> set (awaited_of (calls s2) @ running_tasks s2). x < m))"
    using consume_fifo [of s1 0 "max_workers b - 1" "task_sleep config" "interrupt e"
        "stream e" r s2] c ps(1,5)
    unfolding consume_loop_def by simp
  then show ?thesis unfolding run_final_observed [OF Inr c] by simp
qed

subsection \<open>Runs without an interrupt\<close>

lemma loop_body_stop_generator:
  assumes "loop_body cw sl p i it s = (r, s')"
  shows "stop_generator s' = stop_generator s"
  using assms
proof (cases rule: loop_body_cases)
  case (popped f s3)
  then show ?thesis using popleft_after_append(5) [OF popped(2)] by simp
next
  case (in_result f s3)
  then show ?thesis using popleft_after_append(5) [OF in_result(2)] by simp
next
  case (counted f s3)
  then show ?thesis using popleft_after_append(5) [OF counted(2)] by simp
qed simp_all

lemma consume_stop_generator:
  "consume cw sl intr i xs s = (r, s') \<Longrightarrow> stop_generator s' = stop_generator s"
proof (induction xs arbitrary: i s)
  case Nil
  then show ?case by auto
next
  case (Cons x xs)
  obtain r1 s1 where b: "loop_body cw sl (point_at intr i) i x s = (r1, s1)"
    by force
  note p = loop_body_stop_generator [OF b]
  show ?case
  proof (cases r1)
    case None
    then have "consume cw sl intr (Suc i) xs s1 = (r, s')"
      using Cons.prems b by simp
    then show ?thesis using Cons.IH p by metis
  next
    case (Some err)
    then show ?thesis using Cons.prems b p by simp
  qed
qed

lemma run_uninterrupted:
  assumes "\<not> interrupt_in_loop e" and "max_workers b \<noteq> 1"
  shows "submitted_of (calls (snd (run b config e))) = [0..<length (stream e)]"
    and "awaited_of (calls (snd (run b config e))) = [0..<length (stream e)]"
    and "completed_tasks (snd (run b config e)) = length (stream e)"
    and "running_tasks (snd (run b config e)) = []"
    and "stop_generator (snd (run b config e)) = None"
    and "fst (run b config e) =
          (case stream_kind b of
             None \<Rightarrow> Inl AssertionError
           | Some kind \<Rightarrow>
               Inr \<lparr>res_executor = class_name (executor b),
                    res_connector = connector_name b,
                    res_stream = kind,
                    res_data_size_bytes = data_size_bytes config,
                    res_task_count = task_count config,
                    res_task_sleep = task_sleep config,
                    res_workers = max_workers b,
                    res_completed_tasks = length (stream e),
                    res_start_submit_tasks_timestamp = clock_start e,
                    res_end_tasks_done_timestamp = clock_end e\<rparr>)"
proof -
  obtain s1 where p: "prologue b config = Inr s1"
    using prologue_ok [OF assms(2)] by blast
  note ps = prologue_state [OF p]
  obtain r s2 where c: "consume_loop b config e s1 = (r, s2)" by force
  have quiet: "\<forall>j. 0 \<le> j \<and> j < 0 + length (stream e) \<longrightarrow> point_at (interrupt e) j = None"
    "interrupt e \<noteq> Some (0 + length (stream e), BeforeSubmit)"
    using assms(1) by (auto simp: interrupt_in_loop_def point_at_def split: option.splits)
  have k: "r = None \<and> submitted_of (calls s2) = [0..<0 + length (stream e)]
       \<and> awaited_of (calls s2) @ running_tasks s2 = [0..<0 + length (stream e)]
       \<and> completed_tasks s2 = length (awaited_of (calls s2))"
    using consume_exact [OF quiet _ _ _ c [unfolded consume_loop_def]] ps by simp
  have len: "completed_tasks s2 + length (running_tasks s2) = length (stream e)"
  proof -
    have e1: "completed_tasks s2 = length (awaited_of (calls s2))" using k by blast
    have e2: "awaited_of (calls s2) @ running_tasks s2 = [0..<0 + length (stream e)]"
      using k by blast
    have "length (awaited_of (calls s2)) + length (running_tasks s2)
            = length (awaited_of (calls s2) @ running_tasks s2)"
      by simp
    also have "\<dots> = length (stream e)" unfolding e2 by simp
    finally show ?thesis unfolding e1 .
  qed
  have stop: "stop_generator s2 = None"
    using consume_stop_generator [OF c [unfolded consume_loop_def]] ps(3) by simp
  show "submitted_of (calls (snd (run b config e))) = [0..<length (stream e)]"
    "awaited_of (calls (snd (run b config e))) = [0..<length (stream e)]"
    unfolding run_final_observed [OF p c] using k by simp_all
  show "completed_tasks (snd (run b config e)) = length (stream e)"
    unfolding run_final(3) [OF p c] by (rule len)
  show "running_tasks (snd (run b config e)) = []"
    by (rule run_final(2) [OF p c])
  show "stop_generator (snd (run b config e)) = None"
    unfolding run_final(4) [OF p c] using k stop by simp
  show "fst (run b config e) =
          (case stream_kind b of
             None \<Rightarrow> Inl AssertionError
           | Some kind \<Rightarrow>
               Inr \<lparr>res_executor = class_name (executor b),
                    res_connector = connector_name b,
                    res_stream = kind,
                    res_data_size_bytes = data_size_bytes config,
                    res_task_count = task_count config,
                    res_task_sleep = task_sleep config,
                    res_workers = max_workers b,
                    res_completed_tasks = length (stream e),
                    res_start_submit_tasks_timestamp = clock_start e,
                    res_end_tasks_done_timestamp = clock_end e\<rparr>)"
    unfolding run_final(5) [OF p c] len ..
qed

subsection \<open>Runs with an interrupt\<close>


section \<open>Claims about the benchmark loop\<close>

text \<open>
  Claim C2. In every execution of \<open>run\<close>, with or without an interrupt, the compute
  futures whose \<open>result()\<close> is called are called in the order of their submission: the
  futures are numbered by submission (\<open>0, 1, 2, \<dots>\<close>), the awaited ones form a strictly
  increasing sequence, hence a subsequence of the submitted ones, so that no future is
  awaited before one submitted earlier. Both drains take the head of the deque
  (\<open>popleft\<close>).
\<close>

theorem futures_awaited_in_submission_order:
  "sorted_wrt (<) (awaited_of (calls (snd (run b config e))))
   \<and> subseq (awaited_of (calls (snd (run b config e))))
            (submitted_of (calls (snd (run b config e))))
   \<and> submitted_of (calls (snd (run b config e)))
        = [0..<length (submitted_of (calls (snd (run b config e))))]"
proof -
  obtain m where m: "submitted_of (calls (snd (run b config e))) = [0..<m]"
    "\<forall>x \<in> set (awaited_of (calls (snd (run b config e)))). x < m"
    and s: "sorted_wrt (<) (awaited_of (calls (snd (run b config e))))"
    using run_fifo [of b config e] by blast
  have "subseq (awaited_of (calls (snd (run b config e)))) [0..<m]"
    using s m(2) by (rule strict_sorted_subseq_upt)
  then show ?thesis using s m(1) by simp
qed

text \<open>
  Claim C4. When no interrupt arrives during the loop, the futures submitted are those of
  the items consumed, \<open>0\<close> to \<open>n - 1\<close> for \<open>n\<close> items; the futures awaited are exactly the
  same list, each once; the deque ends empty; and the \<open>completed_tasks\<close> of a returned
  \<open>RunResult\<close> is \<open>n\<close>. A result is returned whenever \<open>max_workers\<close> is not 1 and the
  stream kind is set.
\<close>

theorem all_submitted_futures_awaited_once:
  "\<not> interrupt_in_loop e \<Longrightarrow>
     (max_workers b \<noteq> 1 \<longrightarrow>
        submitted_of (calls (snd (run b config e))) = [0..<length (stream e)]
      \<and> awaited_of (calls (snd (run b config e))) = [0..<length (stream e)]
      \<and> running_tasks (snd (run b config e)) = []
      \<and> completed_tasks (snd (run b config e)) = length (stream e))
   \<and> (fst (run b config e) = Inr res \<longrightarrow> res_completed_tasks res = length (stream e))
   \<and> (max_workers b \<noteq> 1 \<and> stream_kind b \<noteq> None \<longrightarrow> (\<exists>res. fst (run b config e) = Inr res))"
proof (intro conjI impI)
  assume q: "\<not> interrupt_in_loop e"
  {
    assume mw: "max_workers b \<noteq> 1"
    note u = run_uninterrupted [OF q mw, of config]
    show "submitted_of (calls (snd (run b config e))) = [0..<length (stream e)]" by (rule u(1))
    show "awaited_of (calls (snd (run b config e))) = [0..<length (stream e)]" by (rule u(2))
    show "running_tasks (snd (run b config e)) = []" by (rule u(4))
    show "completed_tasks (snd (run b config e)) = length (stream e)" by (rule u(3))
  }
  {
    assume r: "fst (run b config e) = Inr res"
    have mw: "max_workers b \<noteq> 1"
      using r by (auto simp: run_def prologue_one)
    show "res_completed_tasks res = length (stream e)"
      using r run_uninterrupted(6) [OF q mw, of config]
      by (cases "stream_kind b") auto
  }
  {
    assume "max_workers b \<noteq> 1 \<and> stream_kind b \<noteq> None"
    then show "\<exists>res. fst (run b config e) = Inr res"
      using run_uninterrupted(6) [OF q, of b config] by auto
  }
qed

text \<open>The theorem at a run of three workers over four items.\<close>

theorem all_submitted_futures_awaited_once_witness:
  "\<not> interrupt_in_loop (sample_env None)
   \<and> max_workers (sample_benchmark 3 (Some ''redis'')) \<noteq> 1
   \<and> stream_kind (sample_benchmark 3 (Some ''redis'')) \<noteq> None
   \<and> awaited_of (calls (snd (run (sample_benchmark 3 (Some ''redis'')) sample_config
                                 (sample_env None)))) = [0, 1, 2, 3]
   \<and> submitted_of (calls (snd (run (sample_benchmark 3 (Some ''redis'')) sample_config
                                   (sample_env None)))) = [0, 1, 2, 3]
   \<and> fst (run (sample_benchmark 3 (Some ''redis'')) sample_config (sample_env None))
       = Inr \<lparr>res_executor = ''ThreadPoolExecutor'', res_connector = ''FileConnector'',
              res_stream = ''redis'', res_data_size_bytes = 1000, res_task_count = 4,
              res_task_sleep = 1, res_workers = 3, res_completed_tasks = 4,
              res_start_submit_tasks_timestamp = 0, res_end_tasks_done_timestamp = 5\<rparr>
   \<and> res_completed_tasks
         \<lparr>res_executor = ''ThreadPoolExecutor'', res_connector = ''FileConnector'',
          res_stream = ''redis'', res_data_size_bytes = 1000, res_task_count = 4,
          res_task_sleep = 1, res_workers = 3, res_completed_tasks = 4,
          res_start_submit_tasks_timestamp = 0, res_end_tasks_done_timestamp = 5\<rparr>
       = length (stream (sample_env None))"
proof -
  have h1: "\<not> interrupt_in_loop (sample_env None)"
    by (simp add: interrupt_in_loop_def sample_env_def)
  have h2: "max_workers (sample_benchmark 3 (Some ''redis'')) \<noteq> 1"
    and h3: "stream_kind (sample_benchmark 3 (Some ''redis'')) \<noteq> None"
    by (simp_all add: sample_benchmark_def)
  have h4: "fst (run (sample_benchmark 3 (Some ''redis'')) sample_config (sample_env None))
       = Inr \<lparr>res_executor = ''ThreadPoolExecutor'', res_connector = ''FileConnector'',
              res_stream = ''redis'', res_data_size_bytes = 1000, res_task_count = 4,
              res_task_sleep = 1, res_workers = 3, res_completed_tasks = 4,
              res_start_submit_tasks_timestamp = 0, res_end_tasks_done_timestamp = 5\<rparr>"
    by (simp add: run_defs sample_benchmark_def sample_config_def sample_env_def)
  note t = all_submitted_futures_awaited_once [OF h1,
      of "sample_benchmark 3 (Some ''redis'')" sample_config
      "\<lparr>res_executor = ''ThreadPoolExecutor'', res_connector = ''FileConnector'',
              res_stream = ''redis'', res_data_size_bytes = 1000, res_task_count = 4,
              res_task_sleep = 1, res_workers = 3, res_completed_tasks = 4,
              res_start_submit_tasks_timestamp = 0, res_end_tasks_done_timestamp = 5\<rparr>"]
  have n: "[0..<length (stream (sample_env None))] = [0, 1, 2, 3]"
    by (simp add: sample_env_def upt_rec)
  from t h2 have c1: "awaited_of (calls (snd (run (sample_benchmark 3 (Some ''redis'')) sample_config
                                 (sample_env None)))) = [0, 1, 2, 3]"
    and c2: "submitted_of (calls (snd (run (sample_benchmark 3 (Some ''redis'')) sample_config
                                   (sample_env None)))) = [0, 1, 2, 3]"
    unfolding n by blast+
  from t h4 have c3: "res_completed_tasks
         \<lparr>res_executor = ''ThreadPoolExecutor'', res_connector = ''FileConnector'',
          res_stream = ''redis'', res_data_size_bytes = 1000, res_task_count = 4,
          res_task_sleep = 1, res_workers = 3, res_completed_tasks = 4,
          res_start_submit_tasks_timestamp = 0, res_end_tasks_done_timestamp = 5\<rparr>
       = length (stream (sample_env None))"
    by blast
  show ?thesis using h1 h2 h3 c1 c2 h4 c3 by (intro conjI)
qed



text \<open>
  Claim C9. \<open>run\<close> divides by \<open>max_workers - 1\<close>: with \<open>max_workers \<ge> 2\<close> the division does not
  raise; the outcome of \<open>run\<close> is \<open>ZeroDivisionError\<close> exactly when \<open>max_workers = 1\<close>, and
  then nothing has been called and no state built when it fails. \<open>Benchmark.__init__\<close> raises
  \<open>ValueError\<close> for an executor whose \<open>max_workers\<close> is \<open>None\<close>, so every benchmark object
  carries the integer of its executor.
\<close>

theorem run_requires_workers:
  "(2 \<le> max_workers b \<longrightarrow> fst (run b config e) \<noteq> Inl ZeroDivisionError)
   \<and> (fst (run b config e) = Inl ZeroDivisionError) = (max_workers b = 1)
   \<and> (max_workers b = 1 \<longrightarrow> snd (run b config e) = init_state)
   \<and> (executor_max_workers ex = None \<longrightarrow> (\<exists>msg. Benchmark_init ex conn kind = Inl (ValueError msg)))
   \<and> (Benchmark_init ex conn kind = Inr b' \<longrightarrow> executor_max_workers ex = Some (max_workers b'))"
proof -
  have one: "max_workers b = 1 \<Longrightarrow> run b config e = (Inl ZeroDivisionError, init_state)"
    by (simp add: run_def prologue_one)
  have other: "fst (run b config e) \<noteq> Inl ZeroDivisionError" if mw: "max_workers b \<noteq> 1"
  proof -
    obtain s1 where p: "prologue b config = Inr s1"
      using prologue_ok [OF mw] by blast
    obtain r s2 where c: "consume_loop b config e s1 = (r, s2)" by force
    show ?thesis unfolding run_final(5) [OF p c] by (cases "stream_kind b") simp_all
  qed
  have init: "executor_max_workers ex = None \<longrightarrow> (\<exists>msg. Benchmark_init ex conn kind = Inl (ValueError msg))"
    by (simp add: Benchmark_init_def)
  have init2: "Benchmark_init ex conn kind = Inr b' \<longrightarrow> executor_max_workers ex = Some (max_workers b')"
    by (auto simp: Benchmark_init_def split: option.splits)
  show ?thesis using one other init init2 by fastforce
qed

text \<open>The theorem at an executor of three workers, at one of a single worker, at an
  executor without \<open>max_workers\<close> and at one with it.\<close>

theorem run_requires_workers_witness:
  "2 \<le> max_workers (sample_benchmark 3 (Some ''redis''))
   \<and> fst (run (sample_benchmark 3 (Some ''redis'')) sample_config (sample_env None))
        \<noteq> Inl ZeroDivisionError
   \<and> max_workers (sample_benchmark 1 (Some ''redis'')) = 1
   \<and> run (sample_benchmark 1 (Some ''redis'')) sample_config (sample_env None)
        = (Inl ZeroDivisionError, init_state)
   \<and> executor_max_workers \<lparr>class_name = ''DaskExecutor'', executor_max_workers = None\<rparr> = None
   \<and> (\<exists>msg. Benchmark_init \<lparr>class_name = ''DaskExecutor'', executor_max_workers = None\<rparr>
                ''FileConnector'' (Some ''redis'') = Inl (ValueError msg))
   \<and> Benchmark_init \<lparr>class_name = ''ThreadPoolExecutor'', executor_max_workers = Some 3\<rparr>
        ''FileConnector'' (Some ''redis'') = Inr (sample_benchmark 3 (Some ''redis''))
   \<and> executor_max_workers \<lparr>class_name = ''ThreadPoolExecutor'', executor_max_workers = Some 3\<rparr>
        = Some (max_workers (sample_benchmark 3 (Some ''redis'')))"
proof -
  let ?dask = "\<lparr>class_name = ''DaskExecutor'', executor_max_workers = None\<rparr>"
  let ?pool = "\<lparr>class_name = ''ThreadPoolExecutor'', executor_max_workers = Some 3\<rparr>"
  have h1: "2 \<le> max_workers (sample_benchmark 3 (Some ''redis''))"
    and h2: "max_workers (sample_benchmark 1 (Some ''redis'')) = 1"
    by (simp_all add: sample_benchmark_def)
  have h3: "executor_max_workers ?dask = None" by simp
  have h4: "Benchmark_init ?pool ''FileConnector'' (Some ''redis'')
              = Inr (sample_benchmark 3 (Some ''redis''))"
    by (simp add: Benchmark_init_def sample_benchmark_def)
  note t3 = run_requires_workers [of "sample_benchmark 3 (Some ''redis'')" sample_config
      "sample_env None" ?pool "''FileConnector''" "Some ''redis''"
      "sample_benchmark 3 (Some ''redis'')"]
  note t1 = run_requires_workers [of "sample_benchmark 1 (Some ''redis'')" sample_config
      "sample_env None" ?dask "''FileConnector''" "Some ''redis''"
      "sample_benchmark 3 (Some ''redis'')"]
  have c1: "fst (run (sample_benchmark 3 (Some ''redis'')) sample_config (sample_env None))
        \<noteq> Inl ZeroDivisionError"
    using t3 h1 by blast
  have "fst (run (sample_benchmark 1 (Some ''redis'')) sample_config (sample_env None))
          = Inl ZeroDivisionError"
    and "snd (run (sample_benchmark 1 (Some ''redis'')) sample_config (sample_env None))
          = init_state"
    using t1 h2 by blast+
  then have c2: "run (sample_benchmark 1 (Some ''redis'')) sample_config (sample_env None)
        = (Inl ZeroDivisionError, init_state)"
    by (simp add: prod_eq_iff)
  have c3: "\<exists>msg. Benchmark_init ?dask ''FileConnector'' (Some ''redis'') = Inl (ValueError msg)"
    using t1 h3 by blast
  have c4: "executor_max_workers ?pool = Some (max_workers (sample_benchmark 3 (Some ''redis'')))"
    using t3 h4 by blast
  show ?thesis using h1 c1 h2 c2 h3 c3 h4 c4 by (intro conjI)
qed

text \<open>
  Claim C10. A \<open>RunResult\<close> returned by \<open>run\<close> carries the \<open>data_size_bytes\<close>,
  \<open>task_count\<close> and \<open>task_sleep\<close> of the configuration and the \<open>max_workers\<close> of the
  benchmark, which is the executor's, whatever the environment did and however many
  tasks completed.
\<close>

theorem result_echoes_inputs:
  "fst (run b config e) = Inr res \<Longrightarrow>
     res_data_size_bytes res = data_size_bytes config
   \<and> res_task_count res = task_count config
   \<and> res_task_sleep res = task_sleep config
   \<and> res_workers res = max_workers b
   \<and> (Benchmark_init ex conn kind = Inr b \<longrightarrow> executor_max_workers ex = Some (res_workers res))"
proof -
  assume r: "fst (run b config e) = Inr res"
  have mw: "max_workers b \<noteq> 1"
    using r by (auto simp: run_def prologue_one)
  obtain s1 where p: "prologue b config = Inr s1"
    using prologue_ok [OF mw] by blast
  obtain r2 s2 where c: "consume_loop b config e s1 = (r2, s2)" by force
  have f: "res_data_size_bytes res = data_size_bytes config
   \<and> res_task_count res = task_count config
   \<and> res_task_sleep res = task_sleep config
   \<and> res_workers res = max_workers b"
    using r unfolding run_final(5) [OF p c] by (cases "stream_kind b") auto
  have "Benchmark_init ex conn kind = Inr b \<longrightarrow> executor_max_workers ex = Some (max_workers b)"
    by (auto simp: Benchmark_init_def split: option.splits)
  then show ?thesis using f by simp
qed

text \<open>The theorem at an interrupted run, which completes two of four tasks.\<close>

theorem result_echoes_inputs_witness:
  "fst (run (sample_benchmark 3 (Some ''redis'')) sample_config
            (sample_env (Some (2, AfterPopleft))))
     = Inr \<lparr>res_executor = ''ThreadPoolExecutor'', res_connector = ''FileConnector'',
            res_stream = ''redis'', res_data_size_bytes = 1000, res_task_count = 4,
            res_task_sleep = 1, res_workers = 3, res_completed_tasks = 2,
            res_start_submit_tasks_timestamp = 0, res_end_tasks_done_timestamp = 5\<rparr>
   \<and> data_size_bytes sample_config = 1000 \<and> task_count sample_config = 4
   \<and> task_sleep sample_config = 1
   \<and> max_workers (sample_benchmark 3 (Some ''redis'')) = 3
   \<and> Benchmark_init \<lparr>class_name = ''ThreadPoolExecutor'', executor_max_workers = Some 3\<rparr>
        ''FileConnector'' (Some ''redis'') = Inr (sample_benchmark 3 (Some ''redis''))"
proof -
  let ?res = "\<lparr>res_executor = ''ThreadPoolExecutor'', res_connector = ''FileConnector'',
            res_stream = ''redis'', res_data_size_bytes = 1000, res_task_count = 4,
            res_task_sleep = 1, res_workers = 3, res_completed_tasks = 2,
            res_start_submit_tasks_timestamp = 0, res_end_tasks_done_timestamp = 5\<rparr>"
  let ?pool = "\<lparr>class_name = ''ThreadPoolExecutor'', executor_max_workers = Some 3\<rparr>"
  have h: "fst (run (sample_benchmark 3 (Some ''redis'')) sample_config
            (sample_env (Some (2, AfterPopleft)))) = Inr ?res"
    by (simp add: run_defs sample_benchmark_def sample_config_def sample_env_def)
  have h4: "Benchmark_init ?pool ''FileConnector'' (Some ''redis'')
              = Inr (sample_benchmark 3 (Some ''redis''))"
    by (simp add: Benchmark_init_def sample_benchmark_def)
  note t = result_echoes_inputs [OF h, of ?pool "''FileConnector''" "Some ''redis''"]
  have c: "data_size_bytes sample_config = 1000" "task_count sample_config = 4"
    "task_sleep sample_config = 1" "max_workers (sample_benchmark 3 (Some ''redis'')) = 3"
    using t by simp_all
  show ?thesis using h c h4 by (intro conjI)
qed

section \<open>Claims about the store selection\<close>

lemma select_connector_unrecognized:
  "backend \<notin> set recognized_backends
     \<Longrightarrow> select_connector lib backend args = Inl (ValueError (''Invalid backend: '' @ backend))"
  by (simp add: select_connector_def recognized_backends_def)

lemma init_store_from_args_backend:
  assumes "ps_backend args = Some backend" and "backend \<noteq> []"
  shows "init_store_from_args lib args kwargs registry =
           (case select_connector lib backend args of
              Inl err \<Rightarrow> Inl err
            | Inr conn \<Rightarrow>
                (case new_store lib (backend @ ''-STORE'') conn kwargs of
                   Inl err \<Rightarrow> Inl err
                 | Inr store \<Rightarrow>
                     (case register_store store registry of
                        Inl err \<Rightarrow> Inl err
                      | Inr registry' \<Rightarrow> Inr (Some store, registry'))))"
  using assms by (simp add: init_store_from_args_def falsy_def)

lemma init_store_from_args_success:
  assumes "ps_backend args = Some backend" and "backend \<noteq> []"
    and "select_connector lib backend args = Inr conn"
    and "store_error lib \<lparr>store_name = backend @ ''-STORE'', connector = conn,
                           store_kwargs = kwargs\<rparr> = None"
    and "backend @ ''-STORE'' \<notin> set (map store_name registry)"
  shows "init_store_from_args lib args kwargs registry =
           Inr (Some \<lparr>store_name = backend @ ''-STORE'', connector = conn, store_kwargs = kwargs\<rparr>,
                registry @ [\<lparr>store_name = backend @ ''-STORE'', connector = conn,
                              store_kwargs = kwargs\<rparr>])"
  unfolding init_store_from_args_backend [OF assms(1,2)]
  using assms(3,4,5) by (simp add: new_store_def register_store_def Let_def)

lemma init_store_from_args_registered:
  assumes "ps_backend args = Some backend" and "backend \<noteq> []"
    and "select_connector lib backend args = Inr conn"
    and "store_error lib \<lparr>store_name = backend @ ''-STORE'', connector = conn,
                           store_kwargs = kwargs\<rparr> = None"
    and "backend @ ''-STORE'' \<in> set (map store_name registry)"
  shows "init_store_from_args lib args kwargs registry = Inl StoreExistsError"
  unfolding init_store_from_args_backend [OF assms(1,2)]
  using assms(3,4,5) by (simp add: new_store_def register_store_def Let_def)

lemma init_store_from_args_connector_raises:
  assumes "ps_backend args = Some backend" and "backend \<noteq> []"
    and "select_connector lib backend args = Inl err"
  shows "init_store_from_args lib args kwargs registry = Inl err"
  unfolding init_store_from_args_backend [OF assms(1,2)]
  using assms(3) by simp

lemma construct_result: "construct lib conn = Inr conn' \<Longrightarrow> conn' = conn"
  by (auto simp: construct_def split: option.splits)

text \<open>The equations that evaluate the store selection on a concrete input.\<close>

lemmas store_defs = init_store_from_args_def select_connector_def construct_def new_store_def
  register_store_def GlobusEndpoints_from_json_def falsy_def sample_library_def sample_args_def
  recognized_backends_def Let_def

text \<open>
  Claim C5, as amended. For every namespace, library and registry:
  \<open>init_store_from_args\<close> returns \<open>None\<close>, and registers nothing, when \<open>ps_backend\<close> is \<open>None\<close>
  or empty; it raises \<open>ValueError\<close> for any other string that is not one of \<open>ENDPOINT\<close>,
  \<open>FILE\<close>, \<open>GLOBUS\<close>, \<open>REDIS\<close>, \<open>MARGO\<close>, \<open>UCX\<close>, \<open>ZMQ\<close>; for each of these it constructs the
  connector selected by the string from the arguments of that backend (for \<open>GLOBUS\<close>, from
  the endpoints read from the configuration file), and when the constructors succeed and
  no store named after the backend is registered yet, it returns the store of that name,
  holding that connector and the keyword arguments, after registering it. An exception
  of a constructor or of the configuration file leaves \<open>init_store_from_args\<close> as it is, and
  a store of that name already registered makes it raise \<open>StoreExistsError\<close>.
\<close>

theorem init_store_from_args_dispatch:
  "(falsy (ps_backend args) \<longrightarrow>
      init_store_from_args lib args kwargs registry = Inr (None, registry))
   \<and> (ps_backend args = Some backend \<and> backend \<noteq> [] \<and> backend \<notin> set recognized_backends \<longrightarrow>
        init_store_from_args lib args kwargs registry
          = Inl (ValueError (''Invalid backend: '' @ backend)))
   \<and> (ps_backend args = Some backend \<and> backend \<in> set recognized_backends
        \<and> select_connector lib backend args = Inr conn
        \<and> store_error lib \<lparr>store_name = backend @ ''-STORE'', connector = conn,
                              store_kwargs = kwargs\<rparr> = None
        \<and> backend @ ''-STORE'' \<notin> set (map store_name registry) \<longrightarrow>
        init_store_from_args lib args kwargs registry =
          Inr (Some \<lparr>store_name = backend @ ''-STORE'', connector = conn,
                     store_kwargs = kwargs\<rparr>,
               registry @ [\<lparr>store_name = backend @ ''-STORE'', connector = conn,
                             store_kwargs = kwargs\<rparr>]))
   \<and> (ps_backend args = Some backend \<and> backend \<in> set recognized_backends
        \<and> select_connector lib backend args = Inr conn
        \<and> store_error lib \<lparr>store_name = backend @ ''-STORE'', connector = conn,
                              store_kwargs = kwargs\<rparr> = None
        \<and> backend @ ''-STORE'' \<in> set (map store_name registry) \<longrightarrow>
        init_store_from_args lib args kwargs registry = Inl StoreExistsError)
   \<and> (ps_backend args = Some backend \<and> backend \<in> set recognized_backends
        \<and> select_connector lib backend args = Inl err \<longrightarrow>
        init_store_from_args lib args kwargs registry = Inl err)
   \<and> select_connector lib ''ENDPOINT'' args
        = construct lib (EndpointConnector (ps_endpoints args))
   \<and> select_connector lib ''FILE'' args = construct lib (FileConnector (ps_file_dir args))
   \<and> select_connector lib ''GLOBUS'' args
        = (case GlobusEndpoints_from_json lib (ps_globus_config args) of
             Inl err \<Rightarrow> Inl err
           | Inr endpoints \<Rightarrow> construct lib (GlobusConnector endpoints))
   \<and> select_connector lib ''REDIS'' args
        = construct lib (RedisConnector (ps_host args) (ps_port args))
   \<and> select_connector lib ''MARGO'' args
        = construct lib (MargoConnector (ps_port args) (ps_margo_protocol args)
                           (ps_address args) (ps_interface args))
   \<and> select_connector lib ''UCX'' args
        = construct lib (UCXConnector (ps_port args) (ps_interface args) (ps_address args))
   \<and> select_connector lib ''ZMQ'' args
        = construct lib (ZeroMQConnector (ps_port args) (ps_interface args) (ps_address args))
   \<and> (construct lib requested = Inr built \<longrightarrow> built = requested)"
proof (intro conjI impI)
  assume "falsy (ps_backend args)"
  then show "init_store_from_args lib args kwargs registry = Inr (None, registry)"
    by (simp add: init_store_from_args_def)
next
  assume a: "ps_backend args = Some backend \<and> backend \<noteq> [] \<and> backend \<notin> set recognized_backends"
  then show "init_store_from_args lib args kwargs registry
          = Inl (ValueError (''Invalid backend: '' @ backend))"
    using select_connector_unrecognized [of backend lib args]
      init_store_from_args_connector_raises [of args backend lib _ kwargs registry]
    by blast
next
  assume a: "ps_backend args = Some backend \<and> backend \<in> set recognized_backends
        \<and> select_connector lib backend args = Inr conn
        \<and> store_error lib \<lparr>store_name = backend @ ''-STORE'', connector = conn,
                              store_kwargs = kwargs\<rparr> = None
        \<and> backend @ ''-STORE'' \<notin> set (map store_name registry)"
  then have "backend \<noteq> []" by (auto simp: recognized_backends_def)
  then show "init_store_from_args lib args kwargs registry =
          Inr (Some \<lparr>store_name = backend @ ''-STORE'', connector = conn,
                     store_kwargs = kwargs\<rparr>,
               registry @ [\<lparr>store_name = backend @ ''-STORE'', connector = conn,
                             store_kwargs = kwargs\<rparr>])"
    using a init_store_from_args_success [of args backend lib conn kwargs registry] by blast
next
  assume a: "ps_backend args = Some backend \<and> backend \<in> set recognized_backends
        \<and> select_connector lib backend args = Inr conn
        \<and> store_error lib \<lparr>store_name = backend @ ''-STORE'', connector = conn,
                              store_kwargs = kwargs\<rparr> = None
        \<and> backend @ ''-STORE'' \<in> set (map store_name registry)"
  then have "backend \<noteq> []" by (auto simp: recognized_backends_def)
  then show "init_store_from_args lib args kwargs registry = Inl StoreExistsError"
    using a init_store_from_args_registered [of args backend lib conn kwargs registry] by blast
next
  assume a: "ps_backend args = Some backend \<and> backend \<in> set recognized_backends
        \<and> select_connector lib backend args = Inl err"
  then have "backend \<noteq> []" by (auto simp: recognized_backends_def)
  then show "init_store_from_args lib args kwargs registry = Inl err"
    using a init_store_from_args_connector_raises [of args backend lib err kwargs registry]
    by blast
next
  assume "construct lib requested = Inr built"
  then show "built = requested" by (rule construct_result)
qed (simp_all add: select_connector_def)

text \<open>The theorem at an unset backend, at an unknown one, at \<open>REDIS\<close> on an empty registry
  and on one that holds \<open>REDIS-STORE\<close>, and at \<open>GLOBUS\<close> without a configuration file.\<close>

theorem init_store_from_args_dispatch_witness:
  "falsy (ps_backend (sample_args None))
   \<and> init_store_from_args sample_library (sample_args None) [] [] = Inr (None, [])
   \<and> ps_backend (sample_args (Some ''S3'')) = Some ''S3'' \<and> ''S3'' \<noteq> []
   \<and> ''S3'' \<notin> set recognized_backends
   \<and> init_store_from_args sample_library (sample_args (Some ''S3'')) [] []
        = Inl (ValueError ''Invalid backend: S3'')
   \<and> ps_backend (sample_args (Some ''REDIS'')) = Some ''REDIS''
   \<and> ''REDIS'' \<in> set recognized_backends
   \<and> select_connector sample_library ''REDIS'' (sample_args (Some ''REDIS''))
        = Inr (RedisConnector (Some ''localhost'') (Some 6379))
   \<and> store_error sample_library
        \<lparr>store_name = ''REDIS'' @ ''-STORE'',
         connector = RedisConnector (Some ''localhost'') (Some 6379), store_kwargs = []\<rparr> = None
   \<and> ''REDIS'' @ ''-STORE'' \<notin> set (map store_name [])
   \<and> init_store_from_args sample_library (sample_args (Some ''REDIS'')) [] []
        = Inr (Some \<lparr>store_name = ''REDIS-STORE'',
                     connector = RedisConnector (Some ''localhost'') (Some 6379),
                     store_kwargs = []\<rparr>,
               [\<lparr>store_name = ''REDIS-STORE'',
                 connector = RedisConnector (Some ''localhost'') (Some 6379),
                 store_kwargs = []\<rparr>])
   \<and> ''REDIS'' @ ''-STORE''
        \<in> set (map store_name
                  [\<lparr>store_name = ''REDIS-STORE'',
                    connector = RedisConnector (Some ''localhost'') (Some 6379),
                    store_kwargs = []\<rparr>])
   \<and> init_store_from_args sample_library (sample_args (Some ''REDIS'')) []
        [\<lparr>store_name = ''REDIS-STORE'',
          connector = RedisConnector (Some ''localhost'') (Some 6379), store_kwargs = []\<rparr>]
       = Inl StoreExistsError
   \<and> ps_backend ((sample_args (Some ''GLOBUS'')) \<lparr>ps_globus_config := None\<rparr>) = Some ''GLOBUS''
   \<and> ''GLOBUS'' \<in> set recognized_backends
   \<and> select_connector sample_library ''GLOBUS''
        ((sample_args (Some ''GLOBUS'')) \<lparr>ps_globus_config := None\<rparr>)
        = Inl (LibraryError ''TypeError'')
   \<and> init_store_from_args sample_library
        ((sample_args (Some ''GLOBUS'')) \<lparr>ps_globus_config := None\<rparr>) [] []
       = Inl (LibraryError ''TypeError'')
   \<and> construct sample_library (FileConnector (Some ''/tmp/ps''))
        = Inr (FileConnector (Some ''/tmp/ps''))"
proof -
  let ?redis = "RedisConnector (Some ''localhost'') (Some 6379)"
  let ?store = "\<lparr>store_name = ''REDIS-STORE'', connector = ?redis, store_kwargs = []\<rparr>"
  let ?noglobus = "(sample_args (Some ''GLOBUS'')) \<lparr>ps_globus_config := None\<rparr>"
  have h1: "falsy (ps_backend (sample_args None))"
    by (simp add: falsy_def sample_args_def)
  have h2: "ps_backend (sample_args (Some ''S3'')) = Some ''S3''" "''S3'' \<noteq> []"
    "''S3'' \<notin> set recognized_backends"
    by (simp_all add: sample_args_def recognized_backends_def)
  have h3: "ps_backend (sample_args (Some ''REDIS'')) = Some ''REDIS''"
    "''REDIS'' \<in> set recognized_backends"
    "select_connector sample_library ''REDIS'' (sample_args (Some ''REDIS'')) = Inr ?redis"
    "store_error sample_library
        \<lparr>store_name = ''REDIS'' @ ''-STORE'', connector = ?redis, store_kwargs = []\<rparr> = None"
    by (simp_all add: store_defs)
  have h4: "''REDIS'' @ ''-STORE'' \<notin> set (map store_name [])" by simp
  have h5: "''REDIS'' @ ''-STORE'' \<in> set (map store_name [?store])" by simp
  have h6: "ps_backend ?noglobus = Some ''GLOBUS''" "''GLOBUS'' \<in> set recognized_backends"
    "select_connector sample_library ''GLOBUS'' ?noglobus = Inl (LibraryError ''TypeError'')"
    by (simp_all add: store_defs)
  have h7: "construct sample_library (FileConnector (Some ''/tmp/ps''))
              = Inr (FileConnector (Some ''/tmp/ps''))"
    by (simp add: store_defs)
  have c1: "init_store_from_args sample_library (sample_args None) [] [] = Inr (None, [])"
    using init_store_from_args_dispatch [of "sample_args None" sample_library "[]" "[]"] h1
    by blast
  have c2: "init_store_from_args sample_library (sample_args (Some ''S3'')) [] []
        = Inl (ValueError ''Invalid backend: S3'')"
    using init_store_from_args_dispatch [of "sample_args (Some ''S3'')" sample_library "[]" "[]"
        "''S3''"] h2
    by simp
  have c3: "init_store_from_args sample_library (sample_args (Some ''REDIS'')) [] []
        = Inr (Some ?store, [?store])"
    using init_store_from_args_dispatch [of "sample_args (Some ''REDIS'')" sample_library "[]" "[]"
        "''REDIS''" ?redis] h3 h4
    by simp
  have c4: "init_store_from_args sample_library (sample_args (Some ''REDIS'')) [] [?store]
       = Inl StoreExistsError"
    using init_store_from_args_dispatch [of "sample_args (Some ''REDIS'')" sample_library "[]"
        "[?store]" "''REDIS''" ?redis] h3 h5
    by simp
  have c5: "init_store_from_args sample_library ?noglobus [] [] = Inl (LibraryError ''TypeError'')"
    using init_store_from_args_dispatch [of ?noglobus sample_library "[]" "[]" "''GLOBUS''" ?redis
        "LibraryError ''TypeError''"] h6
    by blast
  show ?thesis using h1 c1 h2 c2 h3 h4 c3 h5 c4 h6 c5 h7 by (intro conjI)
qed

text \<open>
  The claim as written, a registered store for every namespace with a recognized backend,
  fails on a second call for the same backend, where \<open>register_store\<close> raises, and on
  \<open>GLOBUS\<close> without a configuration file, where \<open>GlobusEndpoints.from_json\<close> raises.
\<close>

theorem init_store_from_args_dispatch_counterexample:
  "''REDIS'' \<in> set recognized_backends
   \<and> init_store_from_args sample_library (sample_args (Some ''REDIS'')) []
        [\<lparr>store_name = ''REDIS-STORE'',
          connector = RedisConnector (Some ''localhost'') (Some 6379), store_kwargs = []\<rparr>]
       = Inl StoreExistsError
   \<and> ''GLOBUS'' \<in> set recognized_backends
   \<and> init_store_from_args sample_library
        ((sample_args (Some ''GLOBUS'')) \<lparr>ps_globus_config := None\<rparr>) [] []
       = Inl (LibraryError ''TypeError'')"
  by (simp add: store_defs)

section \<open>Properties of the option patterns\<close>

lemma rmatch_lit: "rmatch (lit w) s = (if prefix w s then [drop (length w) s] else [])"
proof (induction w arbitrary: s)
  case Nil
  show ?case by simp
next
  case (Cons c w)
  show ?case
  proof (cases s)
    case Nil
    then show ?thesis by simp
  next
    case (Cons x t)
    then show ?thesis using Cons.IH [of t] by simp
  qed
qed

lemma rmatch_Cat_lit:
  "rmatch (Cat (lit w) r) s = (if prefix w s then rmatch r (drop (length w) s) else [])"
  by (simp add: rmatch_lit)

lemma rmatch_lit_nonempty: "(rmatch (lit w) s \<noteq> []) = prefix w s"
  by (simp add: rmatch_lit)

lemma re_search_iff: "re_search r s = (\<exists>pre suf. s = pre @ suf \<and> rmatch r suf \<noteq> [])"
proof (induction s)
  case Nil
  show ?case by simp
next
  case (Cons c s)
  show ?case
  proof
    assume "re_search r (c # s)"
    then consider "rmatch r (c # s) \<noteq> []" | "re_search r s" by auto
    then show "\<exists>pre suf. c # s = pre @ suf \<and> rmatch r suf \<noteq> []"
    proof cases
      case 1
      then show ?thesis by (intro exI [of _ "[]"] exI [of _ "c # s"]) simp
    next
      case 2
      then obtain pre suf where "s = pre @ suf" "rmatch r suf \<noteq> []"
        using Cons.IH by blast
      then show ?thesis by (intro exI [of _ "c # pre"] exI [of _ suf]) simp
    qed
  next
    assume "\<exists>pre suf. c # s = pre @ suf \<and> rmatch r suf \<noteq> []"
    then obtain pre suf where ps: "c # s = pre @ suf" "rmatch r suf \<noteq> []" by blast
    show "re_search r (c # s)"
    proof (cases pre)
      case Nil
      then have "rmatch r (c # s) \<noteq> []" using ps by simp
      then show ?thesis by simp
    next
      case (Cons x pre')
      then have "s = pre' @ suf" using ps(1) by simp
      then have "re_search r s" using Cons.IH ps(2) by blast
      then show ?thesis by simp
    qed
  qed
qed

lemma sublist_iff_prefix: "sublist w s = (\<exists>pre suf. s = pre @ suf \<and> prefix w suf)"
  by (auto simp: sublist_def prefix_def)

lemma rmatch_ps_backend_pattern:
  "(rmatch (ps_backend_pattern choice) s \<noteq> []) =
     (\<exists>t. (s = ''--ps-backend '' @ t \<or> s = ''--ps-backend='' @ t) \<and> rmatch choice t \<noteq> [])"
proof -
  let ?w = "''--ps-backend''"
  have step: "rmatch (ps_backend_pattern choice) s =
     (if prefix ?w s then rmatch (Cat (Alt (Lit CHR '' '') (Lit CHR ''='')) choice)
                            (drop (length ?w) s) else [])"
    unfolding ps_backend_pattern_def by (rule rmatch_Cat_lit)
  have sep: "(rmatch (Cat (Alt (Lit CHR '' '') (Lit CHR ''='')) choice) u \<noteq> []) =
     (\<exists>t. (u = CHR '' '' # t \<or> u = CHR ''='' # t) \<and> rmatch choice t \<noteq> [])" for u
    by (cases u) auto
  show ?thesis
  proof
    assume "rmatch (ps_backend_pattern choice) s \<noteq> []"
    then have p: "prefix ?w s"
      and m: "rmatch (Cat (Alt (Lit CHR '' '') (Lit CHR ''='')) choice) (drop (length ?w) s) \<noteq> []"
      unfolding step by (auto split: if_splits)
    from m obtain t where t: "drop (length ?w) s = CHR '' '' # t \<or> drop (length ?w) s = CHR ''='' # t"
      "rmatch choice t \<noteq> []"
      unfolding sep by blast
    have "s = ?w @ drop (length ?w) s" using p by (metis append_take_drop_id prefix_def append_eq_conv_conj)
    then have "s = ''--ps-backend '' @ t \<or> s = ''--ps-backend='' @ t"
      using t(1) by auto
    then show "\<exists>t. (s = ''--ps-backend '' @ t \<or> s = ''--ps-backend='' @ t) \<and> rmatch choice t \<noteq> []"
      using t(2) by blast
  next
    assume "\<exists>t. (s = ''--ps-backend '' @ t \<or> s = ''--ps-backend='' @ t) \<and> rmatch choice t \<noteq> []"
    then obtain t where t: "s = ''--ps-backend '' @ t \<or> s = ''--ps-backend='' @ t"
      "rmatch choice t \<noteq> []" by blast
    from t(1) have p: "prefix ?w s" by (auto simp: prefix_def)
    from t(1) have d: "drop (length ?w) s = CHR '' '' # t \<or> drop (length ?w) s = CHR ''='' # t"
      by auto
    show "rmatch (ps_backend_pattern choice) s \<noteq> []"
      unfolding step using p d t(2) sep by auto
  qed
qed

lemma re_search_ps_backend_lit:
  "re_search (ps_backend_pattern (lit name)) s = backend_selected name s"
proof -
  have "re_search (ps_backend_pattern (lit name)) s =
     (\<exists>pre suf. s = pre @ suf \<and>
        (\<exists>t. (suf = ''--ps-backend '' @ t \<or> suf = ''--ps-backend='' @ t) \<and> prefix name t))"
    unfolding re_search_iff rmatch_ps_backend_pattern rmatch_lit_nonempty ..
  also have "\<dots> = backend_selected name s"
    unfolding backend_selected_def sublist_def prefix_def
    by (auto simp del: append_assoc)
  finally show ?thesis .
qed


lemma re_search_Alt_choice:
  "re_search (ps_backend_pattern (Alt a b)) s
     = (re_search (ps_backend_pattern a) s \<or> re_search (ps_backend_pattern b) s)"
proof -
  have m: "(rmatch (ps_backend_pattern (Alt a b)) suf \<noteq> [])
         = (rmatch (ps_backend_pattern a) suf \<noteq> [] \<or> rmatch (ps_backend_pattern b) suf \<noteq> [])"
    for suf
    unfolding rmatch_ps_backend_pattern
    by (simp only: rmatch.simps append_is_Nil_conv de_Morgan_conj) blast
  show ?thesis unfolding re_search_iff m by blast
qed

lemma re_search_port_pattern:
  "re_search port_pattern s =
     (backend_selected ''REDIS'' s \<or> backend_selected ''MARGO'' s
      \<or> backend_selected ''UCX'' s \<or> backend_selected ''ZMQ'' s)"
  unfolding port_pattern_def re_search_Alt_choice re_search_ps_backend_lit ..

lemma rmatch_ipfs_pattern:
  "(rmatch ipfs_pattern s \<noteq> []) =
     (\<exists>t. s = ''--ipfs'' @ t \<and> (t = [] \<or> t = [CHR 0x0A] \<or> (\<exists>c u. t = c # u \<and> is_space c)))"
proof -
  let ?w = "''--ipfs''"
  have step: "rmatch ipfs_pattern s =
     (if prefix ?w s then rmatch (Alt EndOfString Whitespace) (drop (length ?w) s) else [])"
    unfolding ipfs_pattern_def by (rule rmatch_Cat_lit)
  have tail: "(rmatch (Alt EndOfString Whitespace) t \<noteq> []) =
     (t = [] \<or> t = [CHR 0x0A] \<or> (\<exists>c u. t = c # u \<and> is_space c))" for t
    by (cases t) auto
  show ?thesis
  proof
    assume "rmatch ipfs_pattern s \<noteq> []"
    then have p: "prefix ?w s"
      and m: "rmatch (Alt EndOfString Whitespace) (drop (length ?w) s) \<noteq> []"
      unfolding step by (auto split: if_splits)
    have "s = ?w @ drop (length ?w) s"
      using p by (metis append_eq_conv_conj prefix_def)
    then show "\<exists>t. s = ''--ipfs'' @ t \<and> (t = [] \<or> t = [CHR 0x0A] \<or> (\<exists>c u. t = c # u \<and> is_space c))"
      using m unfolding tail by blast
  next
    assume "\<exists>t. s = ''--ipfs'' @ t \<and> (t = [] \<or> t = [CHR 0x0A] \<or> (\<exists>c u. t = c # u \<and> is_space c))"
    then obtain t where t: "s = ?w @ t"
      "t = [] \<or> t = [CHR 0x0A] \<or> (\<exists>c u. t = c # u \<and> is_space c)" by blast
    have p: "prefix ?w s" using t(1) by (simp add: prefix_def)
    have d: "drop (length ?w) s = t" using t(1) by simp
    show "rmatch ipfs_pattern s \<noteq> []"
      unfolding step using p d t(2) tail [of t] by simp
  qed
qed

lemma re_search_ipfs_pattern: "re_search ipfs_pattern s = ipfs_selected s"
proof
  assume "re_search ipfs_pattern s"
  then obtain pre t where s: "s = pre @ ''--ipfs'' @ t"
    and t: "t = [] \<or> t = [CHR 0x0A] \<or> (\<exists>c u. t = c # u \<and> is_space c)"
    unfolding re_search_iff rmatch_ipfs_pattern by blast
  from t consider "t = []" | "t = [CHR 0x0A]" | c u where "t = c # u" "is_space c" by blast
  then show "ipfs_selected s"
  proof cases
    case 1
    then have "suffix ''--ipfs'' s" using s by (simp add: suffix_def)
    then show ?thesis by (simp add: ipfs_selected_def)
  next
    case 2
    then have "suffix (''--ipfs'' @ [CHR 0x0A]) s" using s by (simp add: suffix_def)
    then show ?thesis by (simp add: ipfs_selected_def)
  next
    case 3
    have "s = pre @ (''--ipfs'' @ [c]) @ u" using s 3(1) by simp
    then have "sublist (''--ipfs'' @ [c]) s" unfolding sublist_def by blast
    moreover have "c \<in> set s" using s 3(1) by simp
    ultimately show ?thesis using 3(2) unfolding ipfs_selected_def by blast
  qed
next
  assume "ipfs_selected s"
  then consider "suffix ''--ipfs'' s" | "suffix (''--ipfs'' @ [CHR 0x0A]) s"
    | c where "is_space c" "sublist (''--ipfs'' @ [c]) s"
    unfolding ipfs_selected_def by blast
  then have "\<exists>pre t. s = pre @ ''--ipfs'' @ t
      \<and> (t = [] \<or> t = [CHR 0x0A] \<or> (\<exists>c u. t = c # u \<and> is_space c))"
  proof cases
    case 1
    then obtain pre where "s = pre @ ''--ipfs''" unfolding suffix_def by blast
    then show ?thesis by (intro exI [of _ pre] exI [of _ "[]"]) simp
  next
    case 2
    then obtain pre where "s = pre @ ''--ipfs'' @ [CHR 0x0A]" unfolding suffix_def by blast
    then show ?thesis by (intro exI [of _ pre] exI [of _ "[CHR 0x0A]"]) simp
  next
    case 3
    then obtain pre u where "s = pre @ (''--ipfs'' @ [c]) @ u" unfolding sublist_def by blast
    then have "s = pre @ ''--ipfs'' @ (c # u)" by simp
    then show ?thesis using 3(1) by (intro exI [of _ pre] exI [of _ "c # u"]) blast
  qed
  then show "re_search ipfs_pattern s"
    unfolding re_search_iff rmatch_ipfs_pattern by blast
qed

lemma ipfs_selected_prepend:
  assumes "ipfs_selected s"
  shows "ipfs_selected (a @ s)"
proof -
  from assms consider "suffix ''--ipfs'' s" | "suffix (''--ipfs'' @ [CHR 0x0A]) s"
    | c where "c \<in> set s" "is_space c" "sublist (''--ipfs'' @ [c]) s"
    unfolding ipfs_selected_def by blast
  then show ?thesis
  proof cases
    case 1
    then show ?thesis unfolding ipfs_selected_def using suffix_appendI by blast
  next
    case 2
    then show ?thesis unfolding ipfs_selected_def using suffix_appendI by blast
  next
    case 3
    obtain ps ss where "s = ps @ (''--ipfs'' @ [c]) @ ss"
      using 3(3) unfolding sublist_def by blast
    then have "a @ s = (a @ ps) @ (''--ipfs'' @ [c]) @ ss" by simp
    then have "sublist (''--ipfs'' @ [c]) (a @ s)" unfolding sublist_def by blast
    moreover have "c \<in> set (a @ s)" using 3(1) by simp
    ultimately show ?thesis unfolding ipfs_selected_def using 3(2) by blast
  qed
qed

lemma ipfs_flag_selected: "''--ipfs'' \<in> set argv \<Longrightarrow> ipfs_selected (join_args argv)"
proof (induction argv rule: join_args.induct)
  case 1
  then show ?case by simp
next
  case (2 a)
  then show ?case by (simp add: ipfs_selected_def)
next
  case (3 a b rest)
  show ?case
  proof (cases "a = ''--ipfs''")
    case True
    have sp: "is_space CHR '' ''" by (simp add: is_space_def)
    have "sublist (''--ipfs'' @ [CHR '' '']) (join_args (a # b # rest))"
      unfolding sublist_def using True
      by (intro exI [of _ "[]"] exI [of _ "join_args (b # rest)"]) simp
    moreover have "CHR '' '' \<in> set (join_args (a # b # rest))" by simp
    ultimately show ?thesis unfolding ipfs_selected_def using sp by blast
  next
    case False
    then have "''--ipfs'' \<in> set (b # rest)" using "3.prems" by simp
    then have "ipfs_selected (join_args (b # rest))" by (rule "3.IH")
    then have "ipfs_selected ((a @ '' '') @ join_args (b # rest))" by (rule ipfs_selected_prepend)
    then show ?thesis by simp
  qed
qed

lemma is_required_proxystore:
  "is_required (add_proxystore_options argv req p) ''--ps-endpoints''
     = Some (re_search endpoint_pattern (join_args argv))"
  "is_required (add_proxystore_options argv req p) ''--ps-file-dir''
     = Some (re_search file_pattern (join_args argv))"
  "is_required (add_proxystore_options argv req p) ''--ps-globus-config''
     = Some (re_search globus_pattern (join_args argv))"
  "is_required (add_proxystore_options argv req p) ''--ps-host''
     = Some (re_search host_pattern (join_args argv))"
  "is_required (add_proxystore_options argv req p) ''--ps-port''
     = Some (re_search port_pattern (join_args argv))"
  by (simp_all add: is_required_def add_proxystore_options_def add_argument_def
      plain_argument_def Let_def)

lemma is_required_ipfs:
  "is_required (add_ipfs_options argv p) ''--ipfs-local-dir''
     = Some (re_search ipfs_pattern (join_args argv))"
  "is_required (add_ipfs_options argv p) ''--ipfs-remote-dir''
     = Some (re_search ipfs_pattern (join_args argv))"
  by (simp_all add: is_required_def add_ipfs_options_def add_argument_def
      plain_argument_def Let_def)

section \<open>Claims about the command-line options\<close>

text \<open>
  Claim C6, as amended. \<open>add_proxystore_options\<close> marks \<open>--ps-endpoints\<close>, \<open>--ps-file-dir\<close>,
  \<open>--ps-globus-config\<close> and \<open>--ps-host\<close> required exactly when the joined \<open>sys.argv\<close> matches
  \<open>--ps-backend( |=)\<close> followed by \<open>ENDPOINT\<close>, \<open>FILE\<close>, \<open>GLOBUS\<close> and \<open>REDIS\<close> respectively,
  that is when it contains \<open>--ps-backend\<close>, a space or \<open>=\<close>, and that name; and \<open>--ps-port\<close>
  exactly when it does so for one of \<open>REDIS\<close>, \<open>MARGO\<close>, \<open>UCX\<close>, \<open>ZMQ\<close>.
  \<open>add_ipfs_options\<close> marks \<open>--ipfs-local-dir\<close> and \<open>--ipfs-remote-dir\<close> required exactly when
  the joined \<open>sys.argv\<close> matches \<open>--ipfs($|\s)\<close>, that is when it contains \<open>--ipfs\<close> followed by
  its end, by a final newline or by a whitespace character; this is so whenever \<open>--ipfs\<close>
  is one of the arguments.
\<close>

theorem options_required_when_selected:
  "is_required (add_proxystore_options argv req p) ''--ps-endpoints''
     = Some (re_search endpoint_pattern (join_args argv))
   \<and> re_search endpoint_pattern (join_args argv) = backend_selected ''ENDPOINT'' (join_args argv)
   \<and> is_required (add_proxystore_options argv req p) ''--ps-file-dir''
     = Some (re_search file_pattern (join_args argv))
   \<and> re_search file_pattern (join_args argv) = backend_selected ''FILE'' (join_args argv)
   \<and> is_required (add_proxystore_options argv req p) ''--ps-globus-config''
     = Some (re_search globus_pattern (join_args argv))
   \<and> re_search globus_pattern (join_args argv) = backend_selected ''GLOBUS'' (join_args argv)
   \<and> is_required (add_proxystore_options argv req p) ''--ps-host''
     = Some (re_search host_pattern (join_args argv))
   \<and> re_search host_pattern (join_args argv) = backend_selected ''REDIS'' (join_args argv)
   \<and> is_required (add_proxystore_options argv req p) ''--ps-port''
     = Some (re_search port_pattern (join_args argv))
   \<and> re_search port_pattern (join_args argv)
     = (backend_selected ''REDIS'' (join_args argv) \<or> backend_selected ''MARGO'' (join_args argv)
        \<or> backend_selected ''UCX'' (join_args argv) \<or> backend_selected ''ZMQ'' (join_args argv))
   \<and> is_required (add_ipfs_options argv p) ''--ipfs-local-dir''
     = Some (re_search ipfs_pattern (join_args argv))
   \<and> is_required (add_ipfs_options argv p) ''--ipfs-remote-dir''
     = Some (re_search ipfs_pattern (join_args argv))
   \<and> re_search ipfs_pattern (join_args argv) = ipfs_selected (join_args argv)
   \<and> (''--ipfs'' \<in> set argv \<longrightarrow> re_search ipfs_pattern (join_args argv))"
proof (intro conjI impI)
  assume "''--ipfs'' \<in> set argv"
  then show "re_search ipfs_pattern (join_args argv)"
    unfolding re_search_ipfs_pattern by (rule ipfs_flag_selected)
qed (simp_all only: is_required_proxystore is_required_ipfs re_search_ipfs_pattern
      re_search_port_pattern endpoint_pattern_def file_pattern_def globus_pattern_def
      host_pattern_def re_search_ps_backend_lit)

text \<open>The theorem at a command line that selects \<open>REDIS\<close> and gives \<open>--ipfs\<close>.\<close>

theorem options_required_when_selected_witness:
  "''--ipfs'' \<in> set [''benchmark'', ''--ps-backend'', ''REDIS'', ''--ipfs'']
   \<and> re_search ipfs_pattern (join_args [''benchmark'', ''--ps-backend'', ''REDIS'', ''--ipfs''])
   \<and> is_required (add_ipfs_options [''benchmark'', ''--ps-backend'', ''REDIS'', ''--ipfs'']
                     Map.empty) ''--ipfs-local-dir'' = Some True
   \<and> is_required (add_proxystore_options [''benchmark'', ''--ps-backend'', ''REDIS'', ''--ipfs'']
                     False Map.empty) ''--ps-port'' = Some True
   \<and> is_required (add_proxystore_options [''benchmark'', ''--ps-backend'', ''REDIS'', ''--ipfs'']
                     False Map.empty) ''--ps-file-dir'' = Some False"
proof -
  let ?argv = "[''benchmark'', ''--ps-backend'', ''REDIS'', ''--ipfs'']"
  have h: "''--ipfs'' \<in> set ?argv" by simp
  note t = options_required_when_selected [of ?argv False Map.empty]
  have c1: "re_search ipfs_pattern (join_args ?argv)"
    using t [THEN conjunct2, THEN conjunct2, THEN conjunct2, THEN conjunct2, THEN conjunct2,
             THEN conjunct2, THEN conjunct2, THEN conjunct2, THEN conjunct2, THEN conjunct2,
             THEN conjunct2, THEN conjunct2, THEN conjunct2, THEN mp, OF h] .
  have hasport: "re_search port_pattern (join_args ?argv)" by code_simp
  have nofile: "re_search file_pattern (join_args ?argv) = False" by code_simp
  have c2: "is_required (add_ipfs_options ?argv Map.empty) ''--ipfs-local-dir'' = Some True"
    by (simp only: is_required_ipfs c1)
  have c3: "is_required (add_proxystore_options ?argv False Map.empty) ''--ps-port'' = Some True"
    by (simp only: is_required_proxystore hasport)
  have c4: "is_required (add_proxystore_options ?argv False Map.empty) ''--ps-file-dir'' = Some False"
    by (simp only: is_required_proxystore nofile)
  show ?thesis using h c1 c2 c3 c4 by (intro conjI)
qed

text \<open>
  The claim as written, required exactly when the \<open>--ipfs\<close> flag is among the arguments,
  fails where \<open>--ipfs\<close> only ends another argument: the pattern is searched in the joined
  string and has no anchor on its left.
\<close>

theorem options_required_when_selected_counterexample:
  "''--ipfs'' \<notin> set [''benchmark'', ''--csv-file'', ''out--ipfs'']
   \<and> is_required (add_ipfs_options [''benchmark'', ''--csv-file'', ''out--ipfs''] Map.empty)
        ''--ipfs-local-dir'' = Some True"
proof (rule conjI)
  show "''--ipfs'' \<notin> set [''benchmark'', ''--csv-file'', ''out--ipfs'']" by simp
  have m: "re_search ipfs_pattern (join_args [''benchmark'', ''--csv-file'', ''out--ipfs''])"
    by code_simp
  show "is_required (add_ipfs_options [''benchmark'', ''--csv-file'', ''out--ipfs''] Map.empty)
        ''--ipfs-local-dir'' = Some True"
    by (simp only: is_required_ipfs m)
qed


section \<open>Claims about the CSV logger\<close>

lemma field_names_shapes:
  "field_names (NamedTupleType names) = names"
  "field_names (DataclassType names) = names"
  "field_names (BaseModelType names) = names"
  by simp_all

lemma log_rows_path:
  assumes "log_path logger = filepath" and "fs filepath = Some rows"
  shows "log_rows logger new fs filepath = Some (rows @ new)"
  using assms
proof (induction new arbitrary: fs rows)
  case Nil
  then show ?case by simp
next
  case (Cons row new)
  have "log_row logger row fs filepath = Some (rows @ [row])"
    using Cons.prems by (simp add: log_row_def)
  then have "log_rows logger new (log_row logger row fs) filepath = Some ((rows @ [row]) @ new)"
    using Cons.IH Cons.prems(1) by blast
  then show ?case by simp
qed

lemma CSVLogger_init_new:
  "fs filepath = None \<Longrightarrow>
     CSVLogger_init filepath data_type fs =
       Inr (\<lparr>log_path = filepath, log_fields = field_names data_type\<rparr>,
            fs(filepath \<mapsto> [field_names data_type]))"
  by (simp add: CSVLogger_init_def Let_def)

lemma CSVLogger_init_existing:
  assumes "fs filepath = Some rows" and "CSVLogger_init filepath data_type fs = Inr (logger, fs')"
  shows "fs' = fs" and "logger = \<lparr>log_path = filepath, log_fields = field_names data_type\<rparr>"
  using assms by (auto simp: CSVLogger_init_def Let_def split: list.splits if_splits)

lemma CSVLogger_init_mismatch:
  assumes "fs filepath = Some (header # rows)" and "set header \<noteq> set (field_names data_type)"
  shows "\<exists>msg. CSVLogger_init filepath data_type fs = Inl (ValueError msg)"
  using assms by (simp add: CSVLogger_init_def Let_def)

lemma CSVLogger_init_match:
  assumes "fs filepath = Some (header # rows)" and "set header = set (field_names data_type)"
  shows "CSVLogger_init filepath data_type fs =
           Inr (\<lparr>log_path = filepath, log_fields = field_names data_type\<rparr>, fs)"
  using assms by (simp add: CSVLogger_init_def Let_def)

lemma logger_sessions_existing:
  assumes "fs filepath = Some (names # data)"
    and "list_all (\<lambda>use. field_names (fst use) = names) uses"
  shows "\<exists>fs'. logger_sessions filepath uses fs = Inr fs'
           \<and> fs' filepath = Some (names # data @ concat (map snd uses))"
  using assms
proof (induction uses arbitrary: fs data)
  case Nil
  then show ?case by simp
next
  case (Cons use uses)
  have n: "field_names (fst use) = names" and rest: "list_all (\<lambda>use. field_names (fst use) = names) uses"
    using Cons.prems(2) by simp_all
  let ?logger = "\<lparr>log_path = filepath, log_fields = field_names (fst use)\<rparr>"
  have i: "CSVLogger_init filepath (fst use) fs = Inr (?logger, fs)"
    using CSVLogger_init_match [of fs filepath names data "fst use"] Cons.prems(1) n by simp
  let ?fs1 = "log_rows ?logger (snd use) fs"
  have s: "logger_session filepath use fs = Inr ?fs1"
    by (simp add: logger_session_def i)
  have f1: "?fs1 filepath = Some (names # (data @ snd use))"
    using log_rows_path [of ?logger filepath fs "names # data" "snd use"] Cons.prems(1) by simp
  obtain fs' where "logger_sessions filepath uses ?fs1 = Inr fs'"
    "fs' filepath = Some (names # (data @ snd use) @ concat (map snd uses))"
    using Cons.IH [of ?fs1 "data @ snd use"] f1 rest by auto
  then show ?case using s by simp
qed

lemma logger_sessions_new:
  assumes "fs filepath = None" and "uses \<noteq> []"
    and "list_all (\<lambda>use. field_names (fst use) = names) uses"
  shows "\<exists>fs'. logger_sessions filepath uses fs = Inr fs'
           \<and> fs' filepath = Some (names # concat (map snd uses))"
proof -
  obtain use rest where u: "uses = use # rest" using assms(2) by (cases uses) auto
  have n: "field_names (fst use) = names" and r: "list_all (\<lambda>use. field_names (fst use) = names) rest"
    using assms(3) u by simp_all
  let ?logger = "\<lparr>log_path = filepath, log_fields = field_names (fst use)\<rparr>"
  let ?fs0 = "fs(filepath \<mapsto> [names])"
  have i: "CSVLogger_init filepath (fst use) fs = Inr (?logger, ?fs0)"
    using CSVLogger_init_new [of fs filepath "fst use"] assms(1) n by simp
  let ?fs1 = "log_rows ?logger (snd use) ?fs0"
  have s: "logger_session filepath use fs = Inr ?fs1"
    by (simp add: logger_session_def i)
  have f1: "?fs1 filepath = Some (names # snd use)"
    using log_rows_path [of ?logger filepath ?fs0 "[names]" "snd use"] by simp
  obtain fs' where "logger_sessions filepath rest ?fs1 = Inr fs'"
    "fs' filepath = Some (names # snd use @ concat (map snd rest))"
    using logger_sessions_existing [of ?fs1 filepath names "snd use" rest] f1 r by auto
  then show ?thesis using s u by simp
qed

text \<open>
  Claim C7, on the logger as the specification describes it. Constructing a logger on a
  path that has no file creates the file with the header row of the record type's field
  names; constructing one on an existing file never changes the file; it raises
  \<open>ValueError\<close> when the fields of the record type are not those of the existing header.
  A named tuple, a dataclass and a validated model with the same declared names have the
  same field names, so they can follow each other on one file: after any non-empty
  sequence of uses with the same field names, of whatever shapes, on a path that had no
  file, the file is the header once, followed by the rows logged, in order.
\<close>

theorem csv_header_written_once:
  "(fs filepath = None \<longrightarrow>
      CSVLogger_init filepath data_type fs =
        Inr (\<lparr>log_path = filepath, log_fields = field_names data_type\<rparr>,
             fs(filepath \<mapsto> [field_names data_type])))
   \<and> (fs filepath = Some rows \<and> CSVLogger_init filepath data_type fs = Inr (logger, fs')
        \<longrightarrow> fs' = fs)
   \<and> (fs filepath = Some (header # rows) \<and> set header \<noteq> set (field_names data_type)
        \<longrightarrow> (\<exists>msg. CSVLogger_init filepath data_type fs = Inl (ValueError msg)))
   \<and> field_names (NamedTupleType names) = names
   \<and> field_names (DataclassType names) = names
   \<and> field_names (BaseModelType names) = names
   \<and> (fs filepath = None \<and> uses \<noteq> []
        \<and> list_all (\<lambda>use. field_names (fst use) = names) uses
        \<longrightarrow> (\<exists>fs''. logger_sessions filepath uses fs = Inr fs''
               \<and> fs'' filepath = Some (names # concat (map snd uses))))"
  using CSVLogger_init_new [of fs filepath data_type]
    CSVLogger_init_existing(1) [of fs filepath rows data_type logger fs']
    CSVLogger_init_mismatch [of fs filepath header rows data_type]
    logger_sessions_new [of fs filepath uses names]
  by (intro conjI impI) (simp_all only: field_names.simps, blast+)

text \<open>The theorem at the uses of \<open>test_csv_logger_append\<close>, which leave six lines, and at
  the mismatch of \<open>test_csv_logger_mismatch_headers\<close>.\<close>

theorem csv_header_written_once_witness:
  "(Map.empty :: files) ''log.csv'' = None
   \<and> test_append_uses \<noteq> []
   \<and> list_all (\<lambda>use. field_names (fst use) = test_fields) test_append_uses
   \<and> (\<exists>fs''. logger_sessions ''log.csv'' test_append_uses Map.empty = Inr fs''
          \<and> fs'' ''log.csv'' = Some (test_fields # concat (map snd test_append_uses)))
   \<and> length (test_fields # concat (map snd test_append_uses)) = 6
   \<and> [''log.csv'' \<mapsto> [test_fields, [''1.0'', ''2'', ''3'']]] ''log.csv''
        = Some (test_fields # [[''1.0'', ''2'', ''3'']])
   \<and> set test_fields \<noteq> set (field_names (NamedTupleType [''x'']))
   \<and> (\<exists>msg. CSVLogger_init ''log.csv'' (NamedTupleType [''x''])
                 [''log.csv'' \<mapsto> [test_fields, [''1.0'', ''2'', ''3'']]]
               = Inl (ValueError msg))"
proof -
  let ?old = "[''log.csv'' \<mapsto> [test_fields, [''1.0'', ''2'', ''3'']]] :: files"
  have h1: "(Map.empty :: files) ''log.csv'' = None" by simp
  have h2: "test_append_uses \<noteq> []" by (simp add: test_append_uses_def)
  have h3: "list_all (\<lambda>use. field_names (fst use) = test_fields) test_append_uses"
    by (simp add: test_append_uses_def)
  have h4: "?old ''log.csv'' = Some (test_fields # [[''1.0'', ''2'', ''3'']])" by simp
  have h5: "set test_fields \<noteq> set (field_names (NamedTupleType [''x'']))"
    by (simp add: test_fields_def)
  note t1 = csv_header_written_once [of "Map.empty :: files" "''log.csv''"
      "NamedTupleType test_fields" "[]" "\<lparr>log_path = ''log.csv'', log_fields = test_fields\<rparr>"
      Map.empty "[]" test_fields test_append_uses]
  note t2 = csv_header_written_once [of ?old "''log.csv''" "NamedTupleType [''x'']"
      "[[''1.0'', ''2'', ''3'']]" "\<lparr>log_path = ''log.csv'', log_fields = test_fields\<rparr>"
      Map.empty test_fields test_fields test_append_uses]
  have c1: "\<exists>fs''. logger_sessions ''log.csv'' test_append_uses Map.empty = Inr fs''
          \<and> fs'' ''log.csv'' = Some (test_fields # concat (map snd test_append_uses))"
    using t1 h1 h2 h3 by blast
  have c2: "length (test_fields # concat (map snd test_append_uses)) = 6"
    by (simp add: test_append_uses_def)
  have c3: "\<exists>msg. CSVLogger_init ''log.csv'' (NamedTupleType [''x'']) ?old = Inl (ValueError msg)"
    using t2 h4 h5 by blast
  show ?thesis using h1 h2 h3 c1 c2 h4 h5 c3 by (intro conjI)
qed


end
